theory Spec2Isabelle
  imports Main "HOL-Library.Word"
begin

unbundle bit_operations_syntax

section \<open>The book service of server/main.go\<close>

text \<open>
  The server keeps \<^verbatim>\<open>books map[string]*pb.Book\<close> and \<^verbatim>\<open>idCounter int64\<close>.
  The map holds pointers, and \<^verbatim>\<open>CreateBook\<close> writes the new id through the pointer it
  was given, so the model has an explicit heap of Book objects next to the server
  record. The read/write lock is left out: every operation is one atomic step of a
  sequential run.
\<close>

subsection \<open>Go's scalar types\<close>

type_synonym int32 = "32 word"

type_synonym int64 = "64 word"

text \<open>
  A \<^verbatim>\<open>float32\<close> is its IEEE-754 binary32 bit pattern. The service only compares
  prices, so only the comparison operators are modelled: a NaN (exponent all ones,
  fraction not zero) compares false with everything, and any other two values compare
  as their sign-magnitude integers do (both zeros have key 0).
\<close>

type_synonym float32 = "32 word"

definition f32_isNaN :: "float32 \<Rightarrow> bool" where
  "f32_isNaN x \<longleftrightarrow> x AND 0x7F800000 = 0x7F800000 \<and> x AND 0x007FFFFF \<noteq> 0"

definition f32_key :: "float32 \<Rightarrow> int" where
  "f32_key x = (if bit x 31 then - uint (x AND 0x7FFFFFFF) else uint (x AND 0x7FFFFFFF))"

definition f32_le :: "float32 \<Rightarrow> float32 \<Rightarrow> bool" where
  "f32_le x y \<longleftrightarrow> \<not> f32_isNaN x \<and> \<not> f32_isNaN y \<and> f32_key x \<le> f32_key y"

definition f32_lt :: "float32 \<Rightarrow> float32 \<Rightarrow> bool" where
  "f32_lt x y \<longleftrightarrow> \<not> f32_isNaN x \<and> \<not> f32_isNaN y \<and> f32_key x < f32_key y"

definition f32_ge :: "float32 \<Rightarrow> float32 \<Rightarrow> bool" where
  "f32_ge x y \<longleftrightarrow> f32_le y x"

definition f32_gt :: "float32 \<Rightarrow> float32 \<Rightarrow> bool" where
  "f32_gt x y \<longleftrightarrow> f32_lt y x"

text \<open>\<^verbatim>\<open>fmt.Sprintf("%d", n)\<close>: the decimal digits, a minus sign first when negative.\<close>

definition digit_char :: "nat \<Rightarrow> char" where
  "digit_char d = ''0123456789'' ! d"

fun itoa_nat :: "nat \<Rightarrow> string" where
  "itoa_nat n = (if n < 10 then [digit_char n] else itoa_nat (n div 10) @ [digit_char (n mod 10)])"

declare itoa_nat.simps [simp del]

definition itoa :: "int \<Rightarrow> string" where
  "itoa i = (if i < 0 then CHR ''-'' # itoa_nat (nat (- i)) else itoa_nat (nat i))"

text \<open>The inverse reading of a digit string, used to show that \<open>itoa\<close> is injective.\<close>

definition atoi_nat :: "string \<Rightarrow> nat" where
  "atoi_nat s = foldl (\<lambda>acc c. 10 * acc + (of_char c - 48)) 0 s"

subsection \<open>Messages, objects and the server\<close>

text \<open>
  Modelled from the spec: the generated package \<^verbatim>\<open>pb\<close> (the message types and their
  getters) is not among the sources. The Book message has the six fields of the spec's
  data model; client/main.go gives \<^verbatim>\<open>Price\<close> the type float32 and \<^verbatim>\<open>PublishYear\<close>,
  \<^verbatim>\<open>Page\<close>, \<^verbatim>\<open>PageSize\<close> and \<^verbatim>\<open>Total\<close> the type int32. The field \<^verbatim>\<open>Id\<close> is named
  \<open>Id_fld\<close> here.
\<close>

record Book =
  Id_fld :: string
  Title :: string
  Author :: string
  Price :: float32
  Description :: string
  PublishYear :: int32

text \<open>A \<^verbatim>\<open>*pb.Book\<close> is an address, or nil (\<open>None\<close>); the heap gives every address its object.\<close>

type_synonym addr = nat

type_synonym heap = "addr \<Rightarrow> Book"

text \<open>
  Modelled from the spec: the generated getter \<^verbatim>\<open>GetId\<close> of package \<^verbatim>\<open>pb\<close>, which is not
  among the sources. Like every getter that protoc generates, it returns the zero value
  of the field on a nil receiver.
\<close>

definition GetId :: "heap \<Rightarrow> addr option \<Rightarrow> string" where
  "GetId h p = (case p of None \<Rightarrow> [] | Some a \<Rightarrow> Id_fld (h a))"

text \<open>
  Modelled from the spec: the generated getter \<^verbatim>\<open>GetTitle\<close> of package \<^verbatim>\<open>pb\<close>; on a nil
  receiver it returns the empty string.
\<close>

definition GetTitle :: "heap \<Rightarrow> addr option \<Rightarrow> string" where
  "GetTitle h p = (case p of None \<Rightarrow> [] | Some a \<Rightarrow> Title (h a))"

text \<open>
  Modelled from the spec: the generated getter \<^verbatim>\<open>GetAuthor\<close> of package \<^verbatim>\<open>pb\<close>; on a nil
  receiver it returns the empty string.
\<close>

definition GetAuthor :: "heap \<Rightarrow> addr option \<Rightarrow> string" where
  "GetAuthor h p = (case p of None \<Rightarrow> [] | Some a \<Rightarrow> Author (h a))"

text \<open>
  Modelled from the spec: the generated getter \<^verbatim>\<open>GetPrice\<close> of package \<^verbatim>\<open>pb\<close>; on a nil
  receiver it returns 0.
\<close>

definition GetPrice :: "heap \<Rightarrow> addr option \<Rightarrow> float32" where
  "GetPrice h p = (case p of None \<Rightarrow> 0 | Some a \<Rightarrow> Price (h a))"

text \<open>
  \<^verbatim>\<open>status.Errorf(code, format, args)\<close>. The formats are Chinese sentences; each is
  named by what it says, with the id it prints where it prints one. A nil dereference
  would be a panic, which is an error value of its own.
\<close>

datatype code = InvalidArgument | NotFound

datatype detail =
    TitleEmpty
  | AuthorEmpty
  | PriceNotPositive
  | IdEmpty
  | BookMissing string
  | MinPriceNegative
  | MaxBelowMin

datatype error = Status code detail | Panic

datatype message = BookCreated | BookUpdated | BookDeleted

text \<open>
  Modelled from the spec: the response messages of package \<^verbatim>\<open>pb\<close>, with the fields that
  main.go fills in. A list of books is a list of pointers.
\<close>

record CreateBookResponse =
  cr_Id :: string
  cr_Message :: message

record GetBookResponse =
  gb_Book :: addr

record UpdateBookResponse =
  ub_Message :: message

record DeleteBookResponse =
  db_Message :: message

record ListBooksResponse =
  lb_Books :: "addr list"
  lb_Total :: int32

record SearchBooksByPriceResponse =
  sb_Books :: "addr list"

text \<open>
  The server. No operation ever stores a nil pointer (a nil book fails the first check of
  CreateBook and of UpdateBook), so the map goes from ids to addresses.
\<close>

record BookServer =
  books :: "string \<rightharpoonup> addr"
  idCounter :: int64

record world =
  heap :: heap
  srv :: BookServer

definition NewBookServer :: BookServer where
  "NewBookServer = \<lparr>books = Map.empty, idCounter = 0\<rparr>"

definition initial :: "heap \<Rightarrow> world" where
  "initial h = \<lparr>heap = h, srv = NewBookServer\<rparr>"

subsection \<open>The six operations\<close>

text \<open>\<^verbatim>\<open>fmt.Sprintf("book-%d", s.idCounter)\<close>, the counter read as a signed 64-bit value.\<close>

definition formatID :: "int64 \<Rightarrow> string" where
  "formatID c = ''book-'' @ itoa (sint c)"

definition generateID :: "BookServer \<Rightarrow> string \<times> BookServer" where
  "generateID s =
     (let s' = s\<lparr>idCounter := idCounter s + 1\<rparr>
      in (formatID (idCounter s'), s'))"

text \<open>
  In CreateBook and UpdateBook the branch for a nil book that has passed validation stands
  for the nil dereference of the Go code; the getters make it unreachable.
\<close>

definition CreateBook :: "addr option \<Rightarrow> world \<Rightarrow> (error + CreateBookResponse) \<times> world" where
  "CreateBook book w =
     (if GetTitle (heap w) book = [] then (Inl (Status InvalidArgument TitleEmpty), w)
      else if GetAuthor (heap w) book = [] then (Inl (Status InvalidArgument AuthorEmpty), w)
      else if f32_le (GetPrice (heap w) book) 0 then (Inl (Status InvalidArgument PriceNotPositive), w)
      else case book of
        None \<Rightarrow> (Inl Panic, w)
      | Some a \<Rightarrow>
          (case generateID (srv w) of (bookID, s') \<Rightarrow>
            (Inr \<lparr>cr_Id = bookID, cr_Message = BookCreated\<rparr>,
             \<lparr>heap = (heap w)(a := (heap w a)\<lparr>Id_fld := bookID\<rparr>),
              srv = s'\<lparr>books := (books s')(bookID \<mapsto> a)\<rparr>\<rparr>)))"

definition GetBook :: "string \<Rightarrow> world \<Rightarrow> (error + GetBookResponse) \<times> world" where
  "GetBook id0 w =
     (if id0 = [] then (Inl (Status InvalidArgument IdEmpty), w)
      else case books (srv w) id0 of
        None \<Rightarrow> (Inl (Status NotFound (BookMissing id0)), w)
      | Some book \<Rightarrow> (Inr \<lparr>gb_Book = book\<rparr>, w))"

definition UpdateBook :: "addr option \<Rightarrow> world \<Rightarrow> (error + UpdateBookResponse) \<times> world" where
  "UpdateBook book w =
     (if GetId (heap w) book = [] then (Inl (Status InvalidArgument IdEmpty), w)
      else if GetTitle (heap w) book = [] then (Inl (Status InvalidArgument TitleEmpty), w)
      else if GetAuthor (heap w) book = [] then (Inl (Status InvalidArgument AuthorEmpty), w)
      else if f32_le (GetPrice (heap w) book) 0 then (Inl (Status InvalidArgument PriceNotPositive), w)
      else case books (srv w) (GetId (heap w) book) of
        None \<Rightarrow> (Inl (Status NotFound (BookMissing (GetId (heap w) book))), w)
      | Some old \<Rightarrow>
          (case book of
             None \<Rightarrow> (Inl Panic, w)
           | Some a \<Rightarrow>
               (Inr \<lparr>ub_Message = BookUpdated\<rparr>,
                w\<lparr>srv := (srv w)\<lparr>books := (books (srv w))(GetId (heap w) book \<mapsto> a)\<rparr>\<rparr>)))"

definition DeleteBook :: "string \<Rightarrow> world \<Rightarrow> (error + DeleteBookResponse) \<times> world" where
  "DeleteBook id0 w =
     (if id0 = [] then (Inl (Status InvalidArgument IdEmpty), w)
      else case books (srv w) id0 of
        None \<Rightarrow> (Inl (Status NotFound (BookMissing id0)), w)
      | Some old \<Rightarrow>
          (Inr \<lparr>db_Message = BookDeleted\<rparr>,
           w\<lparr>srv := (srv w)\<lparr>books := (books (srv w))(id0 := None)\<rparr>\<rparr>))"

text \<open>
  \<^verbatim>\<open>for _, book := range s.books\<close> visits every entry once, in an order Go does not
  fix. The order is an argument of the model: \<open>ks\<close> lists the keys as the loop meets
  them, and \<open>enumerates\<close> says that it is an enumeration of the map.
\<close>

definition enumerates :: "string list \<Rightarrow> (string \<rightharpoonup> addr) \<Rightarrow> bool" where
  "enumerates ks m \<longleftrightarrow> distinct ks \<and> set ks = dom m"

definition range_values :: "string list \<Rightarrow> (string \<rightharpoonup> addr) \<Rightarrow> addr list" where
  "range_values ks m = List.map_filter m ks"

definition effective_page :: "int32 \<Rightarrow> int32" where
  "effective_page page = (if page \<le>s 0 then 1 else page)"

definition effective_pageSize :: "int32 \<Rightarrow> int32" where
  "effective_pageSize pageSize =
     (let ps = (if pageSize \<le>s 0 then 10 else pageSize)
      in if 100 <s ps then 100 else ps)"

text \<open>The loop of \<^verbatim>\<open>ListBooks\<close>, with its counter and the slice built so far.\<close>

fun collect_page :: "int32 \<Rightarrow> int32 \<Rightarrow> int32 \<Rightarrow> addr list \<Rightarrow> addr list \<Rightarrow> addr list" where
  "collect_page start end' count acc [] = acc"
| "collect_page start end' count acc (book # rest) =
     collect_page start end' (count + 1)
       (if start \<le>s count \<and> count <s end' then acc @ [book] else acc) rest"

definition ListBooks ::
  "string list \<Rightarrow> int32 \<Rightarrow> int32 \<Rightarrow> world \<Rightarrow> (error + ListBooksResponse) \<times> world" where
  "ListBooks ks page0 pageSize0 w =
     (let page = effective_page page0;
          pageSize = effective_pageSize pageSize0;
          total = (word_of_nat (card (dom (books (srv w)))) :: int32);
          start = (page - 1) * pageSize;
          end' = start + pageSize
      in (Inr \<lparr>lb_Books = collect_page start end' 0 [] (range_values ks (books (srv w))),
               lb_Total = total\<rparr>, w))"

text \<open>The loop of \<^verbatim>\<open>SearchBooksByPrice\<close>.\<close>

fun collect_priced :: "heap \<Rightarrow> float32 \<Rightarrow> float32 \<Rightarrow> addr list \<Rightarrow> addr list \<Rightarrow> addr list" where
  "collect_priced h minPrice maxPrice acc [] = acc"
| "collect_priced h minPrice maxPrice acc (book # rest) =
     collect_priced h minPrice maxPrice
       (if f32_ge (Price (h book)) minPrice \<and> f32_le (Price (h book)) maxPrice
        then acc @ [book] else acc) rest"

definition SearchBooksByPrice ::
  "string list \<Rightarrow> float32 \<Rightarrow> float32 \<Rightarrow> world \<Rightarrow> (error + SearchBooksByPriceResponse) \<times> world" where
  "SearchBooksByPrice ks minPrice maxPrice w =
     (if f32_lt minPrice 0 then (Inl (Status InvalidArgument MinPriceNegative), w)
      else if f32_lt maxPrice minPrice then (Inl (Status InvalidArgument MaxBelowMin), w)
      else (Inr \<lparr>sb_Books = collect_priced (heap w) minPrice maxPrice []
                               (range_values ks (books (srv w)))\<rparr>, w))"

subsection \<open>Sequences of operations\<close>

text \<open>
  A caller's view of the service: a request is one of the six calls with its arguments
  (for the two loops, also the order in which that call's \<^verbatim>\<open>range\<close> meets the keys),
  and a run answers the requests one after the other.
\<close>

datatype op =
    Create "addr option"
  | Get string
  | Update "addr option"
  | Delete string
  | List "string list" int32 int32
  | Search "string list" float32 float32

datatype response =
    Created CreateBookResponse
  | Got GetBookResponse
  | Updated UpdateBookResponse
  | Deleted DeleteBookResponse
  | Listed ListBooksResponse
  | Found SearchBooksByPriceResponse

fun step :: "op \<Rightarrow> world \<Rightarrow> (error + response) \<times> world" where
  "step (Create book) w = apfst (map_sum id Created) (CreateBook book w)"
| "step (Get id0) w = apfst (map_sum id Got) (GetBook id0 w)"
| "step (Update book) w = apfst (map_sum id Updated) (UpdateBook book w)"
| "step (Delete id0) w = apfst (map_sum id Deleted) (DeleteBook id0 w)"
| "step (List ks page pageSize) w = apfst (map_sum id Listed) (ListBooks ks page pageSize w)"
| "step (Search ks minPrice maxPrice) w =
     apfst (map_sum id Found) (SearchBooksByPrice ks minPrice maxPrice w)"

fun run :: "op list \<Rightarrow> world \<Rightarrow> (error + response) list \<times> world" where
  "run [] w = ([], w)"
| "run (x # xs) w = (case step x w of (r, w') \<Rightarrow> apfst ((#) r) (run xs w'))"

text \<open>The ids handed out by the successful Creates of a run, in order.\<close>

fun assigned_ids :: "(error + response) list \<Rightarrow> string list" where
  "assigned_ids [] = []"
| "assigned_ids (Inr (Created r) # rs) = cr_Id r # assigned_ids rs"
| "assigned_ids (r # rs) = assigned_ids rs"

text \<open>Every key of the map leads to a Book whose own id is that key.\<close>

definition store_inv :: "world \<Rightarrow> bool" where
  "store_inv w \<longleftrightarrow> (\<forall>k a. books (srv w) k = Some a \<longrightarrow> Id_fld (heap w a) = k)"

text \<open>
  No Create of the run is handed a Book object that the map already points to (a
  request decoded from the wire is always a new object).
\<close>

fun creates_unshared :: "op list \<Rightarrow> world \<Rightarrow> bool" where
  "creates_unshared [] w = True"
| "creates_unshared (Create (Some a) # xs) w =
     (a \<notin> ran (books (srv w)) \<and> creates_unshared xs (snd (step (Create (Some a)) w)))"
| "creates_unshared (x # xs) w = creates_unshared xs (snd (step x w))"

text \<open>
  The page as the spec words it: the records whose 0-based position in the enumeration
  lies in the interval from \<open>lo\<close> (included) to \<open>hi\<close> (excluded).
\<close>

definition page_window :: "int \<Rightarrow> int \<Rightarrow> 'a list \<Rightarrow> 'a list" where
  "page_window lo hi bs = map (nth bs) (filter (\<lambda>i. lo \<le> int i \<and> int i < hi) [0..<length bs])"

subsection \<open>Concrete objects and stores\<close>

text \<open>A request object as a client builds it: no id, a title, an author, the price 30.0.\<close>

definition sample_book :: Book where
  "sample_book = \<lparr>Id_fld = [], Title = ''Go'', Author = ''Pike'', Price = 0x41F00000,
                   Description = [], PublishYear = 2015\<rparr>"

definition sample_heap :: heap where
  "sample_heap = (\<lambda>a. sample_book)"

text \<open>The same object with the price NaN (the quiet NaN \<^verbatim>\<open>0x7FC00000\<close>).\<close>

definition nan_heap :: heap where
  "nan_heap = (\<lambda>a. sample_book\<lparr>Price := 0x7FC00000\<rparr>)"

text \<open>
  Three request objects priced 19.99, 39.99 and 59.99, and the store that holds them
  (the scenario of \<^verbatim>\<open>TestSearchBooksByPrice\<close>).
\<close>

definition priced_heap :: heap where
  "priced_heap = (\<lambda>a. sample_book\<lparr>Price :=
      (if a = 0 then 0x419FEB85 else if a = 1 then 0x421FF5C3 else 0x426FF5C3)\<rparr>)"

definition priced_world :: world where
  "priced_world = snd (run [Create (Some 0), Create (Some 1), Create (Some 2)] (initial priced_heap))"

text \<open>
  A client that has created a book (object 0, stored as \<open>book-1\<close>, with a description
  and the year 2015) and then sends updates for \<open>book-1\<close>: object 1 is a new record
  priced 39.99 with an empty description and the year 0; every other object is that
  record with the price NaN.
\<close>

definition revised_book :: Book where
  "revised_book = \<lparr>Id_fld = ''book-1'', Title = ''Rust'', Author = ''Klabnik'',
                    Price = 0x421FF5C3, Description = [], PublishYear = 0\<rparr>"

definition update_heap :: heap where
  "update_heap = (\<lambda>a. if a = 0 then sample_book\<lparr>Description := ''first edition''\<rparr>
                      else if a = 1 then revised_book
                      else revised_book\<lparr>Price := 0x7FC00000\<rparr>)"

definition update_world :: world where
  "update_world = snd (CreateBook (Some 0) (initial update_heap))"

text \<open>
  The store after \<open>n\<close> Creates on the new server, each with a new sample object (the
  one at address \<open>0\<close> first, then the one at address \<open>1\<close>, and so on).
\<close>

fun store_of :: "nat \<Rightarrow> world" where
  "store_of 0 = initial sample_heap"
| "store_of (Suc n) = snd (CreateBook (Some n) (store_of n))"

declare store_of.simps [simp del]

text \<open>The requests that build it: \<open>n\<close> Creates, each with a new object.\<close>

definition fresh_creates :: "nat \<Rightarrow> op list" where
  "fresh_creates n = map (\<lambda>i. Create (Some i)) [0..<n]"

text \<open>The ids these Creates are given, in the order of their insertion.\<close>

definition keys_of :: "nat \<Rightarrow> string list" where
  "keys_of n = map (\<lambda>i. formatID (word_of_nat (Suc i))) [0..<n]"

section \<open>Properties\<close>

subsection \<open>Decimal ids are injective\<close>

lemma digit_char_code: "d < 10 \<Longrightarrow> of_char (digit_char d) = (48 + d :: nat)"
proof -
  assume "d < 10"
  then have "d \<in> {0, 1, 2, 3, 4, 5, 6, 7, 8, 9}" by auto
  then show ?thesis by (auto simp add: digit_char_def)
qed

lemma digit_char_not_minus: "d < 10 \<Longrightarrow> digit_char d \<noteq> CHR ''-''"
proof -
  assume "d < 10"
  then have "d \<in> {0, 1, 2, 3, 4, 5, 6, 7, 8, 9}" by auto
  then show ?thesis by (auto simp add: digit_char_def)
qed

lemma atoi_nat_snoc: "atoi_nat (s @ [c]) = 10 * atoi_nat s + (of_char c - 48)"
  by (simp add: atoi_nat_def)

lemma atoi_itoa_nat: "atoi_nat (itoa_nat n) = n"
proof (induction n rule: itoa_nat.induct)
  case (1 n)
  show ?case
  proof (cases "n < 10")
    case True
    then show ?thesis
      by (simp add: itoa_nat.simps [of n] atoi_nat_def digit_char_code)
  next
    case False
    with 1 have "atoi_nat (itoa_nat (n div 10)) = n div 10" by simp
    with False show ?thesis
      by (simp add: itoa_nat.simps [of n] atoi_nat_snoc digit_char_code)
  qed
qed

lemma itoa_nat_no_minus: "CHR ''-'' \<notin> set (itoa_nat n)"
proof (induction n rule: itoa_nat.induct)
  case (1 n)
  show ?case
  proof (cases "n < 10")
    case True
    then show ?thesis
      using digit_char_not_minus [of n] by (auto simp add: itoa_nat.simps [of n])
  next
    case False
    with 1 have "CHR ''-'' \<notin> set (itoa_nat (n div 10))" by simp
    with False show ?thesis
      using digit_char_not_minus [of "n mod 10"] by (auto simp add: itoa_nat.simps [of n])
  qed
qed

lemma itoa_nat_inj: "itoa_nat m = itoa_nat n \<Longrightarrow> m = n"
  by (metis atoi_itoa_nat)

lemma itoa_inj: "itoa i = itoa j \<Longrightarrow> i = j"
proof -
  assume eq: "itoa i = itoa j"
  have neg_pos: False if "x < 0" "\<not> y < 0" "itoa x = itoa y" for x y
  proof -
    from that have "CHR ''-'' # itoa_nat (nat (- x)) = itoa_nat (nat y)"
      by (simp add: itoa_def)
    then have "CHR ''-'' \<in> set (itoa_nat (nat y))" by (metis list.set_intros(1))
    then show False by (simp add: itoa_nat_no_minus)
  qed
  show ?thesis
  proof (cases "i < 0")
    case True
    show ?thesis
    proof (cases "j < 0")
      case True
      with \<open>i < 0\<close> eq have "nat (- i) = nat (- j)"
        by (auto simp add: itoa_def dest: itoa_nat_inj)
      with True \<open>i < 0\<close> show ?thesis by simp
    next
      case False
      with True eq neg_pos [of i j] show ?thesis by simp
    qed
  next
    case False
    show ?thesis
    proof (cases "j < 0")
      case True
      with False eq neg_pos [of j i] show ?thesis by simp
    next
      case False
      with \<open>\<not> i < 0\<close> eq have "nat i = nat j"
        by (auto simp add: itoa_def dest: itoa_nat_inj)
      with False \<open>\<not> i < 0\<close> show ?thesis by simp
    qed
  qed
qed

lemma formatID_inj: "formatID c = formatID d \<Longrightarrow> c = d"
  by (auto simp add: formatID_def dest!: itoa_inj signed_word_eqI)

lemma formatID_nonempty: "formatID c \<noteq> []"
  by (simp add: formatID_def)

lemma mod_eq_in_range:
  fixes a b N :: nat
  assumes "a \<le> N" "b \<le> N" "0 < a" "0 < b" "a mod N = b mod N"
  shows "a = b"
proof (cases "a = N")
  case True
  with assms have "b mod N = 0" by simp
  with assms(2,4) have "b = N"
    by (metis le_neq_implies_less mod_less not_less_zero neq0_conv)
  with True show ?thesis by simp
next
  case False
  with assms(1) have a: "a < N" by simp
  show ?thesis
  proof (cases "b = N")
    case True
    with assms(5) a assms(3) show ?thesis by simp
  next
    case False
    with assms(2) have "b < N" by simp
    with a assms(5) show ?thesis by simp
  qed
qed

lemma word_of_nat_Suc_inj_on:
  assumes "n \<le> 2 ^ LENGTH('a::len)"
  shows "inj_on (\<lambda>k. word_of_nat (Suc k) :: 'a word) {..<n}"
proof (rule inj_onI)
  fix x y assume x: "x \<in> {..<n}" and y: "y \<in> {..<n}"
    and eq: "(word_of_nat (Suc x) :: 'a word) = word_of_nat (Suc y)"
  from eq have "Suc x mod 2 ^ LENGTH('a) = Suc y mod 2 ^ LENGTH('a)"
    by (simp only: word_of_nat_eq_iff take_bit_eq_mod)
  moreover from assms x y have "Suc x \<le> 2 ^ LENGTH('a)" "Suc y \<le> 2 ^ LENGTH('a)"
    by (simp_all only: lessThan_iff Suc_le_eq)
  ultimately have "Suc x = Suc y"
    by (intro mod_eq_in_range [of "Suc x" "2 ^ LENGTH('a)" "Suc y"]) (simp_all only: zero_less_Suc)
  then show "x = y" by simp
qed

lemma counter_inj_on:
  assumes "n \<le> 2 ^ 64"
  shows "inj_on (\<lambda>k. word_of_nat (Suc k) :: int64) {..<n}"
  using assms word_of_nat_Suc_inj_on [where 'a = 64 and n = n] by simp

lemma keys_of_distinct: "n \<le> 2 ^ 64 \<Longrightarrow> distinct (keys_of n)"
proof -
  assume n: "n \<le> 2 ^ 64"
  have "inj_on (\<lambda>k. formatID (word_of_nat (Suc k) :: int64)) {..<n}"
    using counter_inj_on [OF n] by (auto simp add: inj_on_def dest!: formatID_inj)
  then show ?thesis
    by (simp add: keys_of_def distinct_map atLeast_upt [symmetric] lessThan_atLeast0)
qed

lemma keys_of_nth: "i < n \<Longrightarrow> keys_of n ! i = formatID (word_of_nat (Suc i))"
  by (simp add: keys_of_def)

lemma keys_of_length: "length (keys_of n) = n"
  by (simp add: keys_of_def)

lemma keys_of_Suc: "keys_of (Suc n) = keys_of n @ [formatID (word_of_nat (Suc n))]"
  by (simp add: keys_of_def)

subsection \<open>The operations one by one\<close>

lemmas eval_defs =
  initial_def NewBookServer_def sample_heap_def sample_book_def nan_heap_def
  CreateBook_def GetBook_def UpdateBook_def DeleteBook_def
  GetId_def GetTitle_def GetAuthor_def GetPrice_def generateID_def formatID_def Let_def
  f32_le_def f32_lt_def f32_ge_def f32_gt_def f32_isNaN_def f32_key_def
  itoa_def itoa_nat.simps digit_char_def

lemma f32_gt_not_le: "f32_gt x y \<Longrightarrow> \<not> f32_le x y"
  by (auto simp add: f32_gt_def f32_lt_def f32_le_def)

lemma CreateBook_never_panics: "fst (CreateBook book w) \<noteq> Inl Panic"
  by (cases book) (simp_all add: CreateBook_def GetTitle_def split: prod.splits)

lemma UpdateBook_never_panics: "fst (UpdateBook book w) \<noteq> Inl Panic"
  by (cases book) (simp_all add: UpdateBook_def GetId_def split: option.splits)

lemma CreateBook_result:
  "(\<exists>a. book = Some a
      \<and> CreateBook book w =
          (Inr \<lparr>cr_Id = formatID (idCounter (srv w) + 1), cr_Message = BookCreated\<rparr>,
           \<lparr>heap = (heap w)(a := (heap w a)\<lparr>Id_fld := formatID (idCounter (srv w) + 1)\<rparr>),
            srv = \<lparr>books = (books (srv w))(formatID (idCounter (srv w) + 1) \<mapsto> a),
                   idCounter = idCounter (srv w) + 1\<rparr>\<rparr>))
   \<or> (\<exists>d. CreateBook book w = (Inl (Status InvalidArgument d), w))"
  by (cases book) (auto simp add: CreateBook_def generateID_def Let_def GetTitle_def)

lemma snd_GetBook: "snd (GetBook id0 w) = w"
  by (simp add: GetBook_def split: option.splits)

lemma snd_ListBooks: "snd (ListBooks ks page pageSize w) = w"
  by (simp add: ListBooks_def Let_def)

lemma snd_SearchBooksByPrice: "snd (SearchBooksByPrice ks minPrice maxPrice w) = w"
  by (simp add: SearchBooksByPrice_def)

lemma store_of_1_books: "books (srv (store_of (Suc 0))) = [''book-1'' \<mapsto> 0]"
  by (simp add: store_of.simps eval_defs)

lemma priced_world_eval:
  "books (srv priced_world) = [''book-1'' \<mapsto> 0, ''book-2'' \<mapsto> 1, ''book-3'' \<mapsto> 2]"
  "Price (heap priced_world 0) = 0x419FEB85"
  "Price (heap priced_world 1) = 0x421FF5C3"
  "Price (heap priced_world (Suc 0)) = 0x421FF5C3"
  "Price (heap priced_world 2) = 0x426FF5C3"
  by (simp_all add: priced_world_def priced_heap_def eval_defs)

text \<open>
  Claim C10. GetBook, ListBooks and SearchBooksByPrice never modify the store: whatever
  they answer, a result or an error, the world they return (the record map, the id
  counter and every Book object) is the world they were called in.
\<close>

theorem reads_leave_world_unchanged:
  "snd (GetBook id0 w) = w \<and> snd (ListBooks ks page pageSize w) = w
   \<and> snd (SearchBooksByPrice ks minPrice maxPrice w) = w"
  by (simp add: GetBook_def ListBooks_def SearchBooksByPrice_def Let_def split: option.splits)

text \<open>C10 on the store that holds one book: a hit, a miss, a listing and a search.\<close>

theorem reads_leave_world_unchanged_witness:
  "snd (GetBook ''book-1'' (store_of (Suc 0))) = store_of (Suc 0)
   \<and> snd (GetBook ''book-7'' (store_of (Suc 0))) = store_of (Suc 0)
   \<and> snd (ListBooks [''book-1''] 1 10 (store_of (Suc 0))) = store_of (Suc 0)
   \<and> snd (SearchBooksByPrice [''book-1''] 0 0x42480000 (store_of (Suc 0))) = store_of (Suc 0)"
  using reads_leave_world_unchanged [of "''book-1''" "store_of (Suc 0)" "[''book-1'']" 1 10 0 "0x42480000"]
    reads_leave_world_unchanged [of "''book-7''" "store_of (Suc 0)" "[]" 1 10 0 0]
  by simp

text \<open>
  Claim C8. DeleteBook of a non-empty id that is present succeeds and removes exactly that
  entry (every other key, the counter and the objects stay as they were); after it,
  GetBook of the id fails NotFound, and a second DeleteBook of the id fails NotFound and
  changes nothing.
\<close>

theorem DeleteBook_removes_entry:
  assumes "id0 \<noteq> []" and "books (srv w) id0 = Some a"
  shows "DeleteBook id0 w =
           (Inr \<lparr>db_Message = BookDeleted\<rparr>,
            w\<lparr>srv := (srv w)\<lparr>books := (books (srv w))(id0 := None)\<rparr>\<rparr>)
         \<and> fst (GetBook id0 (snd (DeleteBook id0 w))) = Inl (Status NotFound (BookMissing id0))
         \<and> DeleteBook id0 (snd (DeleteBook id0 w)) =
             (Inl (Status NotFound (BookMissing id0)), snd (DeleteBook id0 w))"
  using assms by (simp add: DeleteBook_def GetBook_def)

text \<open>C8 on the store that holds the one book \<open>book-1\<close>.\<close>

theorem DeleteBook_removes_entry_witness:
  "books (srv (store_of (Suc 0))) ''book-1'' = Some 0
   \<and> DeleteBook ''book-1'' (store_of (Suc 0)) =
        (Inr \<lparr>db_Message = BookDeleted\<rparr>,
         (store_of (Suc 0))\<lparr>srv := (srv (store_of (Suc 0)))
            \<lparr>books := (books (srv (store_of (Suc 0))))(''book-1'' := None)\<rparr>\<rparr>)
   \<and> fst (GetBook ''book-1'' (snd (DeleteBook ''book-1'' (store_of (Suc 0)))))
       = Inl (Status NotFound (BookMissing ''book-1''))
   \<and> DeleteBook ''book-1'' (snd (DeleteBook ''book-1'' (store_of (Suc 0))))
       = (Inl (Status NotFound (BookMissing ''book-1'')),
          snd (DeleteBook ''book-1'' (store_of (Suc 0))))"
proof -
  have present: "books (srv (store_of (Suc 0))) ''book-1'' = Some 0"
    by (simp add: store_of_1_books)
  have nonempty: "''book-1'' \<noteq> []" by simp
  from present DeleteBook_removes_entry [OF nonempty present] show ?thesis
    by (rule conjI)
qed

text \<open>
  Claim C7. For a valid book (title and author non-empty, price greater than 0),
  CreateBook succeeds, and GetBook of the returned id succeeds and returns the object
  that was created, equal to the book passed in in every field but the id, which is the
  assigned one.
\<close>

theorem CreateBook_then_GetBook:
  assumes "Title (heap w a) \<noteq> []" and "Author (heap w a) \<noteq> []" and "f32_gt (Price (heap w a)) 0"
  shows "\<exists>bookID w'. CreateBook (Some a) w = (Inr \<lparr>cr_Id = bookID, cr_Message = BookCreated\<rparr>, w')
           \<and> fst (GetBook bookID w') = Inr \<lparr>gb_Book = a\<rparr>
           \<and> heap w' a = (heap w a)\<lparr>Id_fld := bookID\<rparr>"
  using assms f32_gt_not_le [of "Price (heap w a)" 0]
  by (simp add: CreateBook_def GetTitle_def GetAuthor_def GetPrice_def generateID_def Let_def
      GetBook_def formatID_nonempty)

text \<open>C7 for the sample book on the empty store.\<close>

theorem CreateBook_then_GetBook_witness:
  "f32_gt (Price (heap (initial sample_heap) 0)) 0
   \<and> (\<exists>bookID w'. CreateBook (Some 0) (initial sample_heap)
                      = (Inr \<lparr>cr_Id = bookID, cr_Message = BookCreated\<rparr>, w')
           \<and> fst (GetBook bookID w') = Inr \<lparr>gb_Book = 0\<rparr>
           \<and> heap w' 0 = sample_book\<lparr>Id_fld := bookID\<rparr>)"
proof -
  have t: "Title (heap (initial sample_heap) 0) \<noteq> []"
    and a: "Author (heap (initial sample_heap) 0) \<noteq> []"
    and p: "f32_gt (Price (heap (initial sample_heap) 0)) 0"
    by (simp_all add: initial_def sample_heap_def sample_book_def f32_gt_def f32_lt_def
        f32_isNaN_def f32_key_def)
  have "heap (initial sample_heap) 0 = sample_book"
    by (simp add: initial_def sample_heap_def)
  with CreateBook_then_GetBook [OF t a p] p show ?thesis by simp
qed

lemma UpdateBook_validation:
  "(GetId (heap w) book = [] \<longrightarrow>
      UpdateBook book w = (Inl (Status InvalidArgument IdEmpty), w))
   \<and> (GetId (heap w) book \<noteq> [] \<and> GetTitle (heap w) book = [] \<longrightarrow>
      UpdateBook book w = (Inl (Status InvalidArgument TitleEmpty), w))
   \<and> (GetId (heap w) book \<noteq> [] \<and> GetTitle (heap w) book \<noteq> [] \<and> GetAuthor (heap w) book = [] \<longrightarrow>
      UpdateBook book w = (Inl (Status InvalidArgument AuthorEmpty), w))
   \<and> (GetId (heap w) book \<noteq> [] \<and> GetTitle (heap w) book \<noteq> [] \<and> GetAuthor (heap w) book \<noteq> []
        \<and> f32_le (GetPrice (heap w) book) 0 \<longrightarrow>
      UpdateBook book w = (Inl (Status InvalidArgument PriceNotPositive), w))"
  by (simp add: UpdateBook_def)

text \<open>
  What UpdateBook does with a request that passes its four checks: NotFound and no change
  if the id is not in the store; otherwise the key now leads to the incoming object
  itself, GetBook of the id returns it, and each of its fields is as it was passed in.
\<close>

lemma UpdateBook_replaces_record:
  assumes "Id_fld (heap w a) \<noteq> []" and "Title (heap w a) \<noteq> []" and "Author (heap w a) \<noteq> []"
    and "\<not> f32_le (Price (heap w a)) 0"
  shows "(books (srv w) (Id_fld (heap w a)) = None \<longrightarrow>
            UpdateBook (Some a) w = (Inl (Status NotFound (BookMissing (Id_fld (heap w a)))), w))
       \<and> (books (srv w) (Id_fld (heap w a)) \<noteq> None \<longrightarrow>
            UpdateBook (Some a) w =
              (Inr \<lparr>ub_Message = BookUpdated\<rparr>,
               w\<lparr>srv := (srv w)\<lparr>books := (books (srv w))(Id_fld (heap w a) \<mapsto> a)\<rparr>\<rparr>)
            \<and> fst (GetBook (Id_fld (heap w a)) (snd (UpdateBook (Some a) w))) = Inr \<lparr>gb_Book = a\<rparr>
            \<and> heap (snd (UpdateBook (Some a) w)) a = heap w a)"
  using assms
  by (auto simp add: UpdateBook_def GetId_def GetTitle_def GetAuthor_def GetPrice_def GetBook_def)

lemma update_world_eval:
  "books (srv update_world) = [''book-1'' \<mapsto> 0]"
  "idCounter (srv update_world) = 1"
  "heap update_world 0 = sample_book\<lparr>Id_fld := ''book-1'', Description := ''first edition''\<rparr>"
  "heap update_world 1 = revised_book"
  "heap update_world (Suc 0) = revised_book"
  "heap update_world 2 = revised_book\<lparr>Price := 0x7FC00000\<rparr>"
  by (simp_all add: update_world_def update_heap_def eval_defs)

text \<open>
  The update of \<open>book-1\<close> with object 1: the key leaves object 0 for object 1, and
  GetBook returns the new title, author and price together with the new, empty
  description and the year 0, nothing of the old record.
\<close>

lemma UpdateBook_replaces_record_example:
  "fst (GetBook ''book-1'' update_world) = Inr \<lparr>gb_Book = 0\<rparr>
   \<and> UpdateBook (Some 1) update_world =
        (Inr \<lparr>ub_Message = BookUpdated\<rparr>,
         update_world\<lparr>srv := (srv update_world)\<lparr>books := [''book-1'' \<mapsto> 1]\<rparr>\<rparr>)
   \<and> fst (GetBook ''book-1'' (snd (UpdateBook (Some 1) update_world))) = Inr \<lparr>gb_Book = 1\<rparr>
   \<and> heap (snd (UpdateBook (Some 1) update_world)) 1 = revised_book
   \<and> Description (heap (snd (UpdateBook (Some 1) update_world)) 1) = []
   \<and> PublishYear (heap (snd (UpdateBook (Some 1) update_world)) 1) = 0"
proof -
  have h: "Id_fld (heap update_world 1) \<noteq> []" "Title (heap update_world 1) \<noteq> []"
    "Author (heap update_world 1) \<noteq> []" "\<not> f32_le (Price (heap update_world 1)) 0"
    by (simp_all add: update_world_eval revised_book_def f32_le_def f32_isNaN_def f32_key_def)
  have i: "Id_fld (heap update_world 1) = ''book-1''"
    by (simp add: update_world_eval revised_book_def)
  have g: "fst (GetBook ''book-1'' update_world) = Inr \<lparr>gb_Book = 0\<rparr>"
    by (simp add: GetBook_def update_world_eval)
  have r: "heap update_world 1 = revised_book" by (simp add: update_world_eval)
  from UpdateBook_replaces_record [OF h] i g r show ?thesis
    by (auto simp add: update_world_eval revised_book_def)
qed

text \<open>
  Claim C6 says that UpdateBook validates like CreateBook, the price having to be
  greater than 0, before it looks the id up and replaces the record. The code tests
  \<open>price \<le> 0\<close>, which is false for a NaN: the update of \<open>book-1\<close> with object 2,
  whose price NaN is not greater than 0, is not refused; it succeeds, the key leaves
  object 0 for object 2, and GetBook returns the record with the price NaN.
\<close>

theorem UpdateBook_accepts_NaN_price:
  "Id_fld (heap update_world 2) = ''book-1'' \<and> Title (heap update_world 2) = ''Rust''
   \<and> Author (heap update_world 2) = ''Klabnik''
   \<and> Price (heap update_world 2) = 0x7FC00000
   \<and> \<not> f32_gt (Price (heap update_world 2)) 0
   \<and> fst (GetBook ''book-1'' update_world) = Inr \<lparr>gb_Book = 0\<rparr>
   \<and> UpdateBook (Some 2) update_world =
        (Inr \<lparr>ub_Message = BookUpdated\<rparr>,
         update_world\<lparr>srv := (srv update_world)\<lparr>books := [''book-1'' \<mapsto> 2]\<rparr>\<rparr>)
   \<and> fst (GetBook ''book-1'' (snd (UpdateBook (Some 2) update_world))) = Inr \<lparr>gb_Book = 2\<rparr>"
  by (simp add: update_world_eval revised_book_def UpdateBook_def GetBook_def
      GetId_def GetTitle_def GetAuthor_def GetPrice_def
      f32_le_def f32_gt_def f32_lt_def f32_isNaN_def f32_key_def)

subsection \<open>The validation of CreateBook\<close>

text \<open>The checks in their order, and what a failed CreateBook leaves behind.\<close>

lemma CreateBook_validation:
  "(GetTitle (heap w) book = [] \<longrightarrow>
      CreateBook book w = (Inl (Status InvalidArgument TitleEmpty), w))
   \<and> (GetTitle (heap w) book \<noteq> [] \<and> GetAuthor (heap w) book = [] \<longrightarrow>
      CreateBook book w = (Inl (Status InvalidArgument AuthorEmpty), w))
   \<and> (GetTitle (heap w) book \<noteq> [] \<and> GetAuthor (heap w) book \<noteq> []
        \<and> f32_le (GetPrice (heap w) book) 0 \<longrightarrow>
      CreateBook book w = (Inl (Status InvalidArgument PriceNotPositive), w))
   \<and> (GetTitle (heap w) book \<noteq> [] \<and> GetAuthor (heap w) book \<noteq> []
        \<and> \<not> f32_le (GetPrice (heap w) book) 0 \<longrightarrow>
      (\<exists>r. fst (CreateBook book w) = Inr r))"
  by (cases book) (simp_all add: CreateBook_def GetTitle_def generateID_def Let_def)

lemma failed_CreateBook_same_total:
  "fst (CreateBook book w) = Inl e \<Longrightarrow>
     snd (CreateBook book w) = w
     \<and> ListBooks ks page pageSize (snd (CreateBook book w)) = ListBooks ks page pageSize w"
  using CreateBook_result [of book w] by auto

text \<open>
  Claim C5 says that CreateBook refuses, with InvalidArgument, a book whose price is not
  greater than 0. The code tests \<open>price \<le> 0\<close>, which is false for a NaN: a book with a
  title, an author and the price NaN is not greater than 0 and yet is accepted, stored
  under \<open>book-1\<close>, and the counter advances.
\<close>

theorem CreateBook_accepts_NaN_price:
  "Title (heap (initial nan_heap) 0) = ''Go'' \<and> Author (heap (initial nan_heap) 0) = ''Pike''
   \<and> \<not> f32_gt (Price (heap (initial nan_heap) 0)) 0
   \<and> fst (CreateBook (Some 0) (initial nan_heap)) = Inr \<lparr>cr_Id = ''book-1'', cr_Message = BookCreated\<rparr>
   \<and> books (srv (snd (CreateBook (Some 0) (initial nan_heap)))) = [''book-1'' \<mapsto> 0]
   \<and> idCounter (srv (snd (CreateBook (Some 0) (initial nan_heap)))) = 1"
  by (simp add: eval_defs)

subsection \<open>Searching by price\<close>

lemma collect_priced_filter:
  "collect_priced h minPrice maxPrice acc bs =
     acc @ filter (\<lambda>a. f32_le minPrice (Price (h a)) \<and> f32_le (Price (h a)) maxPrice) bs"
  by (induction bs arbitrary: acc) (simp_all add: f32_ge_def)

lemma enumerates_range_values:
  assumes "enumerates ks m"
  shows "range_values ks m = map (\<lambda>k. the (m k)) ks"
proof -
  from assms have "\<And>k. k \<in> set ks \<Longrightarrow> m k \<noteq> None"
    by (auto simp add: enumerates_def)
  then have "filter (\<lambda>k. m k \<noteq> None) ks = ks" by (simp add: filter_id_conv)
  then show ?thesis by (simp add: range_values_def List.map_filter_def o_def)
qed

lemma enumerates_set_range_values:
  assumes "enumerates ks m"
  shows "set (range_values ks m) = ran m"
proof -
  from assms have "set ks = dom m" by (simp add: enumerates_def)
  then show ?thesis
    by (auto simp add: enumerates_range_values [OF assms] ran_def dom_def image_iff)
       (metis option.sel)+
qed

lemma enumerates_card: "enumerates ks m \<Longrightarrow> card (dom m) = length ks"
  by (auto simp add: enumerates_def dest: distinct_card)

text \<open>
  Claim C2. SearchBooksByPrice fails InvalidArgument if \<open>minPrice < 0\<close>, fails
  InvalidArgument if \<open>maxPrice < minPrice\<close>, and otherwise succeeds and returns, in the
  order of the enumeration, exactly the stored records whose price \<open>p\<close> satisfies
  \<open>minPrice \<le> p \<le> maxPrice\<close>: a stored record is in the result if and only if its
  price lies in the closed interval, and nothing else is.
\<close>

theorem SearchBooksByPrice_range:
  "(f32_lt minPrice 0 \<longrightarrow>
      SearchBooksByPrice ks minPrice maxPrice w = (Inl (Status InvalidArgument MinPriceNegative), w))
   \<and> (f32_lt maxPrice minPrice \<longrightarrow>
      (\<exists>d. SearchBooksByPrice ks minPrice maxPrice w = (Inl (Status InvalidArgument d), w)))
   \<and> (\<not> f32_lt minPrice 0 \<and> \<not> f32_lt maxPrice minPrice \<and> enumerates ks (books (srv w)) \<longrightarrow>
      (\<exists>bs. SearchBooksByPrice ks minPrice maxPrice w = (Inr \<lparr>sb_Books = bs\<rparr>, w)
         \<and> bs = filter (\<lambda>a. f32_le minPrice (Price (heap w a)) \<and> f32_le (Price (heap w a)) maxPrice)
                  (map (\<lambda>k. the (books (srv w) k)) ks)
         \<and> (\<forall>k a. books (srv w) k = Some a \<longrightarrow>
               (a \<in> set bs \<longleftrightarrow>
                  f32_le minPrice (Price (heap w a)) \<and> f32_le (Price (heap w a)) maxPrice))
         \<and> set bs \<subseteq> ran (books (srv w))))"
proof (intro conjI impI)
  assume "f32_lt minPrice 0"
  then show "SearchBooksByPrice ks minPrice maxPrice w
      = (Inl (Status InvalidArgument MinPriceNegative), w)"
    by (simp add: SearchBooksByPrice_def)
next
  assume "f32_lt maxPrice minPrice"
  then show "\<exists>d. SearchBooksByPrice ks minPrice maxPrice w = (Inl (Status InvalidArgument d), w)"
    by (simp add: SearchBooksByPrice_def)
next
  assume ok: "\<not> f32_lt minPrice 0 \<and> \<not> f32_lt maxPrice minPrice \<and> enumerates ks (books (srv w))"
  let ?P = "\<lambda>a. f32_le minPrice (Price (heap w a)) \<and> f32_le (Price (heap w a)) maxPrice"
  let ?bs = "filter ?P (map (\<lambda>k. the (books (srv w) k)) ks)"
  from ok have e: "enumerates ks (books (srv w))" by simp
  have res: "SearchBooksByPrice ks minPrice maxPrice w = (Inr \<lparr>sb_Books = ?bs\<rparr>, w)"
    using ok by (simp add: SearchBooksByPrice_def collect_priced_filter enumerates_range_values)
  have all: "set (map (\<lambda>k. the (books (srv w) k)) ks) = ran (books (srv w))"
    using enumerates_set_range_values [OF e] by (simp only: enumerates_range_values [OF e])
  have iff: "\<forall>k a. books (srv w) k = Some a \<longrightarrow> (a \<in> set ?bs \<longleftrightarrow> ?P a)"
  proof (intro allI impI)
    fix k a assume "books (srv w) k = Some a"
    then have "a \<in> ran (books (srv w))" by (auto simp add: ran_def)
    with all have "a \<in> set (map (\<lambda>k. the (books (srv w) k)) ks)" by simp
    then show "a \<in> set ?bs \<longleftrightarrow> ?P a" by simp
  qed
  have sub: "set ?bs \<subseteq> ran (books (srv w))"
    using all by auto
  from res iff sub
  show "\<exists>bs. SearchBooksByPrice ks minPrice maxPrice w = (Inr \<lparr>sb_Books = bs\<rparr>, w)
         \<and> bs = ?bs
         \<and> (\<forall>k a. books (srv w) k = Some a \<longrightarrow> (a \<in> set bs \<longleftrightarrow> ?P a))
         \<and> set bs \<subseteq> ran (books (srv w))"
    by blast
qed

text \<open>
  C2 on the store with prices 19.99, 39.99 and 59.99: the search from 30 to 50 returns
  the second book alone; a minimum of -1 and the interval from 50 to 30 are refused.
\<close>

theorem SearchBooksByPrice_range_witness:
  "enumerates [''book-3'', ''book-1'', ''book-2''] (books (srv priced_world))
   \<and> SearchBooksByPrice [''book-3'', ''book-1'', ''book-2''] 0x41F00000 0x42480000 priced_world
       = (Inr \<lparr>sb_Books = [1]\<rparr>, priced_world)
   \<and> f32_lt 0xBF800000 0
   \<and> fst (SearchBooksByPrice [] 0xBF800000 0x42480000 priced_world)
       = Inl (Status InvalidArgument MinPriceNegative)
   \<and> f32_lt 0x41F00000 0x42480000
   \<and> fst (SearchBooksByPrice [] 0x42480000 0x41F00000 priced_world)
       = Inl (Status InvalidArgument MaxBelowMin)"
proof -
  let ?ks = "[''book-3'', ''book-1'', ''book-2'']"
  have e: "enumerates ?ks (books (srv priced_world))"
    by (auto simp add: enumerates_def priced_world_eval)
  have v: "\<not> f32_lt 0x41F00000 0" "\<not> f32_lt 0x42480000 0x41F00000"
    by (simp_all add: f32_lt_def f32_isNaN_def f32_key_def)
  have neg: "f32_lt 0xBF800000 0" and lt: "f32_lt 0x41F00000 0x42480000"
    by (simp_all add: f32_lt_def f32_isNaN_def f32_key_def)
  from SearchBooksByPrice_range [of "0x41F00000" ?ks "0x42480000" priced_world] e v
  have "SearchBooksByPrice ?ks 0x41F00000 0x42480000 priced_world
      = (Inr \<lparr>sb_Books = filter (\<lambda>a. f32_le 0x41F00000 (Price (heap priced_world a))
              \<and> f32_le (Price (heap priced_world a)) 0x42480000)
            (map (\<lambda>k. the (books (srv priced_world) k)) ?ks)\<rparr>, priced_world)"
    by blast
  then have a: "SearchBooksByPrice ?ks 0x41F00000 0x42480000 priced_world
      = (Inr \<lparr>sb_Books = [1]\<rparr>, priced_world)"
    by (simp add: priced_world_eval f32_le_def f32_isNaN_def f32_key_def)
  from SearchBooksByPrice_range [of "0xBF800000" "[]" "0x42480000" priced_world] neg
  have b: "fst (SearchBooksByPrice [] 0xBF800000 0x42480000 priced_world)
       = Inl (Status InvalidArgument MinPriceNegative)"
    by simp
  have c: "fst (SearchBooksByPrice [] 0x42480000 0x41F00000 priced_world)
       = Inl (Status InvalidArgument MaxBelowMin)"
    using lt by (simp add: SearchBooksByPrice_def f32_lt_def f32_isNaN_def f32_key_def)
  from e a neg b lt c show ?thesis by (intro conjI)
qed

subsection \<open>The invariant of the map\<close>

lemma store_inv_initial: "store_inv (initial h)"
  by (simp add: store_inv_def initial_def NewBookServer_def)

lemma store_inv_CreateBook:
  assumes "store_inv w" and "\<And>a. book = Some a \<Longrightarrow> a \<notin> ran (books (srv w))"
  shows "store_inv (snd (CreateBook book w))"
proof (cases book)
  case None
  with assms(1) show ?thesis by (simp add: CreateBook_def GetTitle_def)
next
  case (Some a)
  with assms(2) have fresh: "\<And>k. books (srv w) k \<noteq> Some a"
    by (auto simp add: ran_def)
  with assms(1) Some show ?thesis
    by (auto simp add: CreateBook_def generateID_def Let_def store_inv_def)
qed

lemma store_inv_UpdateBook: "store_inv w \<Longrightarrow> store_inv (snd (UpdateBook book w))"
  by (cases book) (auto simp add: UpdateBook_def GetId_def store_inv_def split: option.splits)

lemma store_inv_DeleteBook: "store_inv w \<Longrightarrow> store_inv (snd (DeleteBook id0 w))"
  by (auto simp add: DeleteBook_def store_inv_def split: option.splits)

lemma snd_step:
  "snd (step (Create book) w) = snd (CreateBook book w)"
  "snd (step (Get id0) w) = w"
  "snd (step (Update book) w) = snd (UpdateBook book w)"
  "snd (step (Delete id0) w) = snd (DeleteBook id0 w)"
  "snd (step (List ks page pageSize) w) = w"
  "snd (step (Search ks minPrice maxPrice) w) = w"
  by (simp_all add: snd_GetBook snd_ListBooks snd_SearchBooksByPrice)

lemma snd_run_Cons: "snd (run (x # xs) w) = snd (run xs (snd (step x w)))"
  by (simp split: prod.splits)

lemma fst_run_Cons: "fst (run (x # xs) w) = fst (step x w) # fst (run xs (snd (step x w)))"
  by (simp split: prod.splits)

lemma store_inv_step:
  assumes "store_inv w" and "creates_unshared [x] w"
  shows "store_inv (snd (step x w))"
proof (cases x)
  case (Create book)
  show ?thesis
  proof (cases book)
    case None
    with assms(1) Create show ?thesis
      by (simp only: snd_step) (rule store_inv_CreateBook, simp_all)
  next
    case (Some a)
    with assms(2) Create have "a \<notin> ran (books (srv w))" by simp
    with assms(1) Create Some show ?thesis
      by (simp only: snd_step) (rule store_inv_CreateBook, simp_all)
  qed
next
  case (Update book)
  with assms show ?thesis by (simp only: snd_step store_inv_UpdateBook)
next
  case (Delete id0)
  with assms show ?thesis by (simp only: snd_step store_inv_DeleteBook)
qed (use assms in \<open>simp_all only: snd_step\<close>)

lemma creates_unshared_Cons:
  "creates_unshared (x # xs) w \<longleftrightarrow> creates_unshared [x] w \<and> creates_unshared xs (snd (step x w))"
proof (cases x)
  case (Create book)
  then show ?thesis by (cases book) (simp_all del: step.simps)
qed (simp_all del: step.simps)

lemma store_inv_run:
  "store_inv w \<Longrightarrow> creates_unshared xs w \<Longrightarrow> store_inv (snd (run xs w))"
proof (induction xs arbitrary: w)
  case Nil
  then show ?case by simp
next
  case (Cons x xs)
  from Cons.prems(2) have one: "creates_unshared [x] w"
    and rest: "creates_unshared xs (snd (step x w))"
    by (simp_all only: creates_unshared_Cons [of x xs w])
  from Cons.prems(1) one have "store_inv (snd (step x w))" by (rule store_inv_step)
  from Cons.IH [OF this rest] show ?case by (simp only: snd_run_Cons)
qed

text \<open>
  C9 as stated fails: CreateBook writes the new id into the object it was handed and
  stores the pointer. Two Creates of the same object leave \<open>book-1\<close> pointing to an
  object whose id is \<open>book-2\<close>.
\<close>

theorem shared_create_breaks_store_inv:
  "\<not> store_inv (snd (run [Create (Some 0), Create (Some 0)] (initial sample_heap)))"
proof
  assume "store_inv (snd (run [Create (Some 0), Create (Some 0)] (initial sample_heap)))"
  then have "\<And>k a. books (srv (snd (run [Create (Some 0), Create (Some 0)] (initial sample_heap)))) k = Some a
     \<Longrightarrow> Id_fld (heap (snd (run [Create (Some 0), Create (Some 0)] (initial sample_heap))) a) = k"
    unfolding store_inv_def by blast
  from this [of "''book-1''" 0] show False
    by (simp add: eval_defs)
qed

text \<open>
  Claim C9, amended. The empty store satisfies the invariant (every key of the map leads
  to a Book whose own id is that key); every operation preserves it, a Create provided it
  is not handed a Book object the map already points to; so it holds in every state
  reached from the empty store by a sequence of operations whose Creates are each handed
  an object the store does not hold yet.
\<close>

theorem store_inv_preserved:
  "store_inv (initial h)
   \<and> (store_inv w \<and> creates_unshared [x] w \<longrightarrow> store_inv (snd (step x w)))
   \<and> (creates_unshared xs (initial h) \<longrightarrow> store_inv (snd (run xs (initial h))))"
  using store_inv_initial [of h] store_inv_step [of w x] store_inv_run [of "initial h" xs]
  by blast

text \<open>C9 on a run of Create, Update, Create, Delete with two different objects.\<close>

theorem store_inv_preserved_witness:
  "creates_unshared [Create (Some 0), Update (Some 0), Create (Some 1), Delete ''book-1'']
     (initial sample_heap)
   \<and> store_inv (snd (run [Create (Some 0), Update (Some 0), Create (Some 1), Delete ''book-1'']
        (initial sample_heap)))
   \<and> creates_unshared [Create (Some 1)] (initial sample_heap)
   \<and> store_inv (snd (step (Create (Some 1)) (initial sample_heap)))"
proof -
  have a: "creates_unshared [Create (Some 0), Update (Some 0), Create (Some 1), Delete ''book-1'']
     (initial sample_heap)"
    by (simp add: eval_defs)
  have b: "creates_unshared [Create (Some 1)] (initial sample_heap)"
    by (simp add: eval_defs)
  from a b store_inv_preserved [of sample_heap "initial sample_heap" "Create (Some 1)"
      "[Create (Some 0), Update (Some 0), Create (Some 1), Delete ''book-1'']"]
  show ?thesis by blast
qed

subsection \<open>The store after n Creates\<close>

lemma sample_valid:
  "Title sample_book \<noteq> []" "Author sample_book \<noteq> []" "\<not> f32_le (Price sample_book) 0"
  by (simp_all add: sample_book_def f32_le_def f32_isNaN_def f32_key_def)

lemma store_of_shape:
  "idCounter (srv (store_of n)) = word_of_nat n
   \<and> (\<forall>a. Title (heap (store_of n) a) = Title sample_book
          \<and> Author (heap (store_of n) a) = Author sample_book
          \<and> Price (heap (store_of n) a) = Price sample_book)"
proof (induction n)
  case 0
  then show ?case
    by (simp add: store_of.simps initial_def NewBookServer_def sample_heap_def)
next
  case (Suc n)
  with sample_valid show ?case
    by (simp add: store_of.simps CreateBook_def GetTitle_def GetAuthor_def GetPrice_def
        generateID_def Let_def)
qed

lemma store_of_Suc_books:
  "books (srv (store_of (Suc n)))
     = (books (srv (store_of n)))(formatID (word_of_nat (Suc n)) \<mapsto> n)"
  using store_of_shape [of n] sample_valid
  by (simp add: store_of.simps CreateBook_def GetTitle_def GetAuthor_def GetPrice_def
      generateID_def Let_def ac_simps)

lemma store_of_dom: "dom (books (srv (store_of n))) = set (keys_of n)"
proof (induction n)
  case 0
  then show ?case
    by (simp add: store_of.simps initial_def NewBookServer_def keys_of_def)
next
  case (Suc n)
  then show ?case
    by (simp only: store_of_Suc_books keys_of_Suc dom_fun_upd) auto
qed

lemma store_of_enumerates:
  "n \<le> 2 ^ 64 \<Longrightarrow> enumerates (keys_of n) (books (srv (store_of n)))"
  by (simp add: enumerates_def store_of_dom keys_of_distinct)

lemma map_filter_upd_fresh:
  "k \<notin> set ks \<Longrightarrow> List.map_filter (m(k \<mapsto> v)) ks = List.map_filter m ks"
  by (induction ks) (auto simp add: map_filter_simps split: option.splits)

lemma map_filter_snoc:
  "List.map_filter f (xs @ [x]) = List.map_filter f xs @ (case f x of None \<Rightarrow> [] | Some y \<Rightarrow> [y])"
  by (induction xs) (simp_all add: map_filter_simps split: option.splits)

lemma store_of_range_values:
  "n \<le> 2 ^ 64 \<Longrightarrow> range_values (keys_of n) (books (srv (store_of n))) = [0..<n]"
proof (induction n)
  case 0
  then show ?case by (simp add: keys_of_def range_values_def map_filter_simps)
next
  case (Suc n)
  let ?k = "formatID (word_of_nat (Suc n) :: int64)"
  from Suc.prems have "distinct (keys_of (Suc n))" by (rule keys_of_distinct)
  then have fresh: "?k \<notin> set (keys_of n)" by (simp only: keys_of_Suc) simp
  from Suc have "List.map_filter (books (srv (store_of n))) (keys_of n) = [0..<n]"
    by (simp add: range_values_def)
  with map_filter_upd_fresh [OF fresh, of "books (srv (store_of n))" n]
  have "List.map_filter ((books (srv (store_of n)))(?k \<mapsto> n)) (keys_of n) = [0..<n]"
    by simp
  then show ?case
    by (simp only: range_values_def store_of_Suc_books keys_of_Suc map_filter_snoc) simp
qed

lemma run_append:
  "run (xs @ ys) w = (fst (run xs w) @ fst (run ys (snd (run xs w))), snd (run ys (snd (run xs w))))"
  by (induction xs arbitrary: w) (simp_all split: prod.splits)

lemma fresh_creates_Suc: "fresh_creates (Suc n) = fresh_creates n @ [Create (Some n)]"
  by (simp add: fresh_creates_def)

lemma store_of_Create:
  "CreateBook (Some n) (store_of n)
     = (Inr \<lparr>cr_Id = formatID (word_of_nat (Suc n)), cr_Message = BookCreated\<rparr>, store_of (Suc n))"
proof (rule prod_eqI)
  from store_of_shape [of n] sample_valid
  show "fst (CreateBook (Some n) (store_of n))
      = fst (Inr \<lparr>cr_Id = formatID (word_of_nat (Suc n)), cr_Message = BookCreated\<rparr>,
             store_of (Suc n))"
    by (simp add: CreateBook_def GetTitle_def GetAuthor_def GetPrice_def generateID_def Let_def
        ac_simps)
next
  show "snd (CreateBook (Some n) (store_of n))
      = snd (Inr \<lparr>cr_Id = formatID (word_of_nat (Suc n)), cr_Message = BookCreated\<rparr>,
             store_of (Suc n))"
    by (simp add: store_of.simps)
qed

lemma run_fresh_creates:
  "run (fresh_creates n) (initial sample_heap)
     = (map (\<lambda>i. Inr (Created \<lparr>cr_Id = formatID (word_of_nat (Suc i)), cr_Message = BookCreated\<rparr>))
          [0..<n],
        store_of n)"
proof (induction n)
  case 0
  then show ?case by (simp add: fresh_creates_def store_of.simps)
next
  case (Suc n)
  then show ?case
    by (simp add: fresh_creates_Suc run_append store_of_Create)
qed

lemma assigned_ids_fresh_creates:
  "assigned_ids (fst (run (fresh_creates n) (initial sample_heap))) = keys_of n"
proof -
  have "assigned_ids (map (\<lambda>i. Inr (Created \<lparr>cr_Id = f i, cr_Message = BookCreated\<rparr>)) xs) = map f xs"
    for f :: "nat \<Rightarrow> string" and xs
    by (induction xs) simp_all
  then show ?thesis by (simp only: run_fresh_creates fst_conv keys_of_def)
qed

subsection \<open>The ids a run assigns\<close>

text \<open>What a step does to the counter and to the list of assigned ids.\<close>

lemma step_assigns:
  "(idCounter (srv (snd (step x w))) = idCounter (srv w) + 1
      \<and> assigned_ids (fst (step x w) # rs) = formatID (idCounter (srv w) + 1) # assigned_ids rs)
   \<or> (idCounter (srv (snd (step x w))) = idCounter (srv w)
      \<and> assigned_ids (fst (step x w) # rs) = assigned_ids rs)"
proof (cases x)
  case (Create book)
  from CreateBook_result [of book w] show ?thesis
  proof
    assume "\<exists>a. book = Some a
      \<and> CreateBook book w =
          (Inr \<lparr>cr_Id = formatID (idCounter (srv w) + 1), cr_Message = BookCreated\<rparr>,
           \<lparr>heap = (heap w)(a := (heap w a)\<lparr>Id_fld := formatID (idCounter (srv w) + 1)\<rparr>),
            srv = \<lparr>books = (books (srv w))(formatID (idCounter (srv w) + 1) \<mapsto> a),
                   idCounter = idCounter (srv w) + 1\<rparr>\<rparr>)"
    with Create show ?thesis by auto
  next
    assume "\<exists>d. CreateBook book w = (Inl (Status InvalidArgument d), w)"
    with Create show ?thesis by auto
  qed
next
  case (Get id0)
  then show ?thesis
    by (auto simp add: GetBook_def split: option.splits)
next
  case (Update book)
  then show ?thesis
    by (cases book) (auto simp add: UpdateBook_def split: option.splits)
next
  case (Delete id0)
  then show ?thesis
    by (auto simp add: DeleteBook_def split: option.splits)
next
  case (List ks page pageSize)
  then show ?thesis by (simp add: ListBooks_def Let_def)
next
  case (Search ks minPrice maxPrice)
  then show ?thesis by (simp add: SearchBooksByPrice_def)
qed

lemma assigned_ids_run:
  "assigned_ids (fst (run xs w)) =
     map (\<lambda>k. formatID (idCounter (srv w) + word_of_nat (Suc k)))
       [0..<length (assigned_ids (fst (run xs w)))]"
proof (induction xs arbitrary: w)
  case Nil
  then show ?case by simp
next
  case (Cons x xs)
  let ?w' = "snd (step x w)"
  let ?rs = "fst (run xs ?w')"
  let ?n = "length (assigned_ids ?rs)"
  let ?ids = "assigned_ids (fst (run (x # xs) w))"
  have run: "fst (run (x # xs) w) = fst (step x w) # ?rs" by (rule fst_run_Cons)
  from step_assigns [of x w ?rs] show ?case
  proof
    assume created: "idCounter (srv ?w') = idCounter (srv w) + 1
      \<and> assigned_ids (fst (step x w) # ?rs) = formatID (idCounter (srv w) + 1) # assigned_ids ?rs"
    then have ids: "?ids = formatID (idCounter (srv w) + 1) # assigned_ids ?rs"
      by (simp only: run)
    then have len: "length ?ids = Suc ?n" by simp
    have "assigned_ids ?rs = map (\<lambda>k. formatID (idCounter (srv w) + 1 + word_of_nat (Suc k))) [0..<?n]"
      using Cons.IH [of ?w'] created by simp
    also have "\<dots> = map (\<lambda>k. formatID (idCounter (srv w) + word_of_nat (Suc (Suc k)))) [0..<?n]"
      by (simp add: ac_simps)
    finally have main: "formatID (idCounter (srv w) + 1) # assigned_ids ?rs
        = map (\<lambda>k. formatID (idCounter (srv w) + word_of_nat (Suc k))) [0..<Suc ?n]"
      by (simp only: map_upt_Suc) simp
    show ?thesis by (subst len, subst ids, rule main)
  next
    assume same: "idCounter (srv ?w') = idCounter (srv w)
      \<and> assigned_ids (fst (step x w) # ?rs) = assigned_ids ?rs"
    then have ids: "?ids = assigned_ids ?rs" by (simp only: run)
    from Cons.IH [of ?w'] same show ?thesis by (simp only: ids)
  qed
qed

lemma assigned_ids_initial:
  "assigned_ids (fst (run xs (initial h))) = keys_of (length (assigned_ids (fst (run xs (initial h)))))"
  using assigned_ids_run [of xs "initial h"]
  by (simp add: keys_of_def initial_def NewBookServer_def)

lemma two_pow_64_wraps: "(word_of_nat (2 ^ 64) :: int64) = 0"
proof -
  have "(word_of_nat (2 ^ 64) :: int64) = word_of_nat (2 ^ LENGTH(64))" by simp
  also have "\<dots> = 0" by (simp only: word_of_nat_eq_0_iff) simp
  finally show ?thesis .
qed

lemma keys_of_repeat:
  assumes "(word_of_nat N :: int64) = 0" and "0 < N"
  shows "\<not> distinct (keys_of (Suc N))"
proof
  assume d: "distinct (keys_of (Suc N))"
  have "keys_of (Suc N) ! N = formatID (word_of_nat N + 1)"
    by (simp add: keys_of_nth ac_simps)
  with assms(1) have "keys_of (Suc N) ! N = formatID 1" by simp
  moreover have "keys_of (Suc N) ! 0 = formatID 1" by (simp add: keys_of_nth)
  ultimately have "keys_of (Suc N) ! 0 = keys_of (Suc N) ! N" by simp
  with d assms(2) show False
    by (simp add: distinct_conv_nth keys_of_length)
qed

text \<open>
  C1 as stated fails for the 64-bit counter: \<^verbatim>\<open>s.idCounter++\<close> wraps around, so in a run
  of \<open>2 ^ 64 + 1\<close> Creates, each with a new object, all succeed and the first and the
  last are both given \<open>book-1\<close>.
\<close>

theorem ids_repeat_after_wrap:
  "snd (run (fresh_creates (Suc (2 ^ 64))) (initial sample_heap)) = store_of (Suc (2 ^ 64))
   \<and> length (assigned_ids (fst (run (fresh_creates (Suc (2 ^ 64))) (initial sample_heap))))
       = Suc (2 ^ 64)
   \<and> assigned_ids (fst (run (fresh_creates (Suc (2 ^ 64))) (initial sample_heap))) ! 0 = ''book-1''
   \<and> assigned_ids (fst (run (fresh_creates (Suc (2 ^ 64))) (initial sample_heap))) ! (2 ^ 64)
       = ''book-1''
   \<and> \<not> distinct (assigned_ids (fst (run (fresh_creates (Suc (2 ^ 64))) (initial sample_heap))))"
proof -
  let ?ids = "assigned_ids (fst (run (fresh_creates (Suc (2 ^ 64))) (initial sample_heap)))"
  have ids: "?ids = keys_of (Suc (2 ^ 64))" by (rule assigned_ids_fresh_creates)
  have one: "formatID 1 = ''book-1''"
    by (simp add: formatID_def itoa_def itoa_nat.simps digit_char_def)
  have w: "snd (run (fresh_creates (Suc (2 ^ 64))) (initial sample_heap)) = store_of (Suc (2 ^ 64))"
    by (simp only: run_fresh_creates snd_conv)
  have l: "length ?ids = Suc (2 ^ 64)" by (simp only: ids keys_of_length)
  have "keys_of (Suc (2 ^ 64)) ! 0 = formatID (word_of_nat (Suc 0))"
    by (rule keys_of_nth) simp
  then have a: "?ids ! 0 = ''book-1''" by (simp only: ids) (simp add: one)
  have "keys_of (Suc (2 ^ 64)) ! (2 ^ 64) = formatID (word_of_nat (Suc (2 ^ 64)))"
    by (rule keys_of_nth) simp
  also have "(word_of_nat (Suc (2 ^ 64)) :: int64) = 1"
    using two_pow_64_wraps by (simp only: of_nat_Suc) simp
  finally have b: "?ids ! (2 ^ 64) = ''book-1''" by (simp only: ids one)
  have "\<not> distinct (keys_of (Suc (2 ^ 64)))"
    by (rule keys_of_repeat [OF two_pow_64_wraps]) simp
  then have d: "\<not> distinct ?ids" unfolding ids .
  from w l a b d show ?thesis by (intro conjI)
qed

text \<open>
  Claim C1, amended. A successful CreateBook increments the counter and returns the id
  \<open>book-N\<close>, \<open>N\<close> the counter after the increment read as a signed 64-bit number;
  a CreateBook that fails leaves the world, the counter included, unchanged. In a run
  from the new server the ids assigned are \<open>book-1\<close>, \<open>book-2\<close>, ... in this order,
  whatever fails, is updated or deleted in between; the first is \<open>book-1\<close>; and as
  long as no more than \<open>2 ^ 64\<close> Creates have succeeded, no id was assigned twice.
\<close>

theorem assigned_ids_unique:
  "(\<forall>r. fst (CreateBook book w) = Inr r \<longrightarrow>
        idCounter (srv (snd (CreateBook book w))) = idCounter (srv w) + 1
      \<and> cr_Id r = ''book-'' @ itoa (sint (idCounter (srv (snd (CreateBook book w))))))
   \<and> ((\<exists>e. fst (CreateBook book w) = Inl e) \<longrightarrow> snd (CreateBook book w) = w)
   \<and> assigned_ids (fst (run xs (initial h)))
       = keys_of (length (assigned_ids (fst (run xs (initial h)))))
   \<and> (assigned_ids (fst (run xs (initial h))) \<noteq> [] \<longrightarrow>
        hd (assigned_ids (fst (run xs (initial h)))) = ''book-1'')
   \<and> (length (assigned_ids (fst (run xs (initial h)))) \<le> 2 ^ 64 \<longrightarrow>
        distinct (assigned_ids (fst (run xs (initial h)))))"
proof (intro conjI allI impI)
  fix r assume "fst (CreateBook book w) = Inr r"
  with CreateBook_result [of book w]
  show "idCounter (srv (snd (CreateBook book w))) = idCounter (srv w) + 1"
    and "cr_Id r = ''book-'' @ itoa (sint (idCounter (srv (snd (CreateBook book w)))))"
    by (auto simp add: formatID_def)
next
  assume "\<exists>e. fst (CreateBook book w) = Inl e"
  with CreateBook_result [of book w] show "snd (CreateBook book w) = w" by auto
next
  show ids: "assigned_ids (fst (run xs (initial h)))
      = keys_of (length (assigned_ids (fst (run xs (initial h)))))"
    by (rule assigned_ids_initial)
  {
    assume "assigned_ids (fst (run xs (initial h))) \<noteq> []"
    then have "0 < length (assigned_ids (fst (run xs (initial h))))" by simp
    then have "hd (keys_of (length (assigned_ids (fst (run xs (initial h)))))) = formatID 1"
      by (simp add: keys_of_def hd_map)
    also have "formatID 1 = ''book-1''"
      by (simp add: formatID_def itoa_def itoa_nat.simps digit_char_def)
    finally show "hd (assigned_ids (fst (run xs (initial h)))) = ''book-1''"
      by (simp only: ids [symmetric])
  }
  {
    assume "length (assigned_ids (fst (run xs (initial h)))) \<le> 2 ^ 64"
    then have "distinct (keys_of (length (assigned_ids (fst (run xs (initial h))))))"
      by (rule keys_of_distinct)
    then show "distinct (assigned_ids (fst (run xs (initial h))))"
      by (simp only: ids [symmetric])
  }
qed

text \<open>C1 on a run with a failed Create, a Create, a Delete and a Create.\<close>

theorem assigned_ids_unique_witness:
  "fst (CreateBook (Some 1) (store_of (Suc 0))) = Inr \<lparr>cr_Id = ''book-2'', cr_Message = BookCreated\<rparr>
   \<and> idCounter (srv (snd (CreateBook (Some 1) (store_of (Suc 0))))) = 2
   \<and> fst (CreateBook None (store_of (Suc 0))) = Inl (Status InvalidArgument TitleEmpty)
   \<and> snd (CreateBook None (store_of (Suc 0))) = store_of (Suc 0)
   \<and> assigned_ids (fst (run [Create None, Create (Some 0), Delete ''book-1'', Create (Some 1)]
         (initial sample_heap))) = [''book-1'', ''book-2'']
   \<and> distinct (assigned_ids (fst (run [Create None, Create (Some 0), Delete ''book-1'', Create (Some 1)]
         (initial sample_heap))))"
proof -
  let ?xs = "[Create None, Create (Some 0), Delete ''book-1'', Create (Some 1)]"
  have ids: "assigned_ids (fst (run ?xs (initial sample_heap))) = [''book-1'', ''book-2'']"
    by (simp add: eval_defs)
  have ok: "fst (CreateBook (Some 1) (store_of (Suc 0)))
      = Inr \<lparr>cr_Id = ''book-2'', cr_Message = BookCreated\<rparr>"
    by (simp add: store_of.simps eval_defs)
  have bad: "fst (CreateBook None (store_of (Suc 0))) = Inl (Status InvalidArgument TitleEmpty)"
    by (simp add: CreateBook_def GetTitle_def)
  have len: "length (assigned_ids (fst (run ?xs (initial sample_heap)))) \<le> 2 ^ 64"
    unfolding ids by simp
  from assigned_ids_unique [of "Some 1" "store_of (Suc 0)" ?xs sample_heap] ok
  have "idCounter (srv (snd (CreateBook (Some 1) (store_of (Suc 0))))) = idCounter (srv (store_of (Suc 0))) + 1"
    by blast
  moreover have "idCounter (srv (store_of (Suc 0))) = 1"
    by (simp add: store_of.simps eval_defs)
  ultimately have c: "idCounter (srv (snd (CreateBook (Some 1) (store_of (Suc 0))))) = 2" by simp
  from assigned_ids_unique [of None "store_of (Suc 0)" ?xs sample_heap] bad
  have u: "snd (CreateBook None (store_of (Suc 0))) = store_of (Suc 0)" by blast
  from assigned_ids_unique [of None "store_of (Suc 0)" ?xs sample_heap] len
  have d: "distinct (assigned_ids (fst (run ?xs (initial sample_heap))))" by blast
  from ok c bad u ids d show ?thesis by (intro conjI)
qed

subsection \<open>Listing a page\<close>

lemma sint_of_nat_small:
  assumes "i < 2 ^ 31"
  shows "sint (word_of_nat i :: int32) = int i"
proof -
  have "sint (word_of_nat i :: int32) = signed_take_bit 31 (int i)"
    by (simp add: signed_of_nat)
  also from assms have "\<dots> = int i"
    by (intro signed_take_bit_int_eq_self) simp_all
  finally show ?thesis .
qed

lemma collect_page_filter:
  "collect_page start end' count acc bs =
     acc @ map (nth bs)
       (filter (\<lambda>i. start \<le>s count + word_of_nat i \<and> count + word_of_nat i <s end') [0..<length bs])"
proof (induction bs arbitrary: count acc)
  case Nil
  then show ?case by simp
next
  case (Cons b bs)
  have "[0..<Suc (length bs)] = 0 # [Suc 0..<Suc (length bs)]"
    by (rule upt_conv_Cons) simp
  then have upt: "[0..<length (b # bs)] = 0 # map Suc [0..<length bs]"
    by (simp only: length_Cons map_Suc_upt)
  show ?case
    by (simp only: collect_page.simps Cons.IH upt)
       (simp add: filter_map o_def ac_simps)
qed

lemma collect_page_window:
  assumes "length bs \<le> 2 ^ 31"
  shows "collect_page start end' 0 [] bs = page_window (sint start) (sint end') bs"
proof -
  have "filter (\<lambda>i. start \<le>s 0 + word_of_nat i \<and> 0 + word_of_nat i <s end') [0..<length bs]
      = filter (\<lambda>i. sint start \<le> int i \<and> int i < sint end') [0..<length bs]"
  proof (rule filter_cong [OF refl])
    fix i assume "i \<in> set [0..<length bs]"
    with assms have "i < 2 ^ 31" by simp
    then have "sint (word_of_nat i :: int32) = int i" by (rule sint_of_nat_small)
    then show "(start \<le>s 0 + word_of_nat i \<and> 0 + word_of_nat i <s end')
        = (sint start \<le> int i \<and> int i < sint end')"
      by (simp add: word_sle_eq word_sless_alt)
  qed
  then show ?thesis
    by (simp only: collect_page_filter page_window_def append_Nil)
qed

lemma page_window_past_end:
  assumes "int (length bs) \<le> lo"
  shows "page_window lo hi bs = []"
proof -
  from assms have "\<And>i. i \<in> set [0..<length bs] \<Longrightarrow> \<not> (lo \<le> int i \<and> int i < hi)"
    by auto
  then have "filter (\<lambda>i. lo \<le> int i \<and> int i < hi) [0..<length bs] = []"
    by (simp add: filter_empty_conv)
  then show ?thesis by (simp add: page_window_def)
qed

lemma page_window_negative: "hi \<le> 0 \<Longrightarrow> page_window lo hi bs = []"
  by (simp add: page_window_def filter_empty_conv)

lemma sint_start_bound: "sint (x :: int32) < 2 ^ 31"
  using sint_lt [of x] by simp

lemma priced_world_enumerates:
  "enumerates [''book-3'', ''book-1'', ''book-2''] (books (srv priced_world))"
  by (auto simp add: enumerates_def priced_world_eval)

lemma priced_world_range_values:
  "range_values [''book-3'', ''book-1'', ''book-2''] (books (srv priced_world)) = [2, 0, 1]"
  by (simp add: range_values_def map_filter_simps priced_world_eval)

lemma ListBooks_Total:
  "map_sum id lb_Total (fst (ListBooks ks page pageSize w))
     = Inr (word_of_nat (card (dom (books (srv w)))))"
  by (simp add: ListBooks_def Let_def)

lemma ListBooks_Books:
  "map_sum id lb_Books (fst (ListBooks ks page pageSize w))
     = Inr (collect_page ((effective_page page - 1) * effective_pageSize pageSize)
              ((effective_page page - 1) * effective_pageSize pageSize + effective_pageSize pageSize)
              0 [] (range_values ks (books (srv w))))"
  by (simp add: ListBooks_def Let_def)

lemma two_pow_31_wraps: "(word_of_nat (2 ^ 31) :: int32) = - 2147483648"
  by simp

text \<open>
  C3 as stated fails on the store that \<open>2 ^ 31\<close> Creates leave behind: it holds
  \<open>2 ^ 31\<close> records, and \<^verbatim>\<open>int32(len(s.books))\<close> is \<open>- 2147483648\<close>.
\<close>

theorem giant_store_total_wraps:
  "snd (run (fresh_creates (2 ^ 31)) (initial sample_heap)) = store_of (2 ^ 31)
   \<and> enumerates (keys_of (2 ^ 31)) (books (srv (store_of (2 ^ 31))))
   \<and> card (dom (books (srv (store_of (2 ^ 31))))) = 2 ^ 31
   \<and> map_sum id lb_Total (fst (ListBooks (keys_of (2 ^ 31)) 1 10 (store_of (2 ^ 31))))
       = Inr (- 2147483648)
   \<and> sint (- 2147483648 :: int32) = - 2147483648"
proof -
  have le: "(2 :: nat) ^ 31 \<le> 2 ^ 64" by simp
  have e: "enumerates (keys_of (2 ^ 31)) (books (srv (store_of (2 ^ 31))))"
    by (rule store_of_enumerates [OF le])
  have c: "card (dom (books (srv (store_of (2 ^ 31))))) = 2 ^ 31"
    by (simp only: enumerates_card [OF e] keys_of_length)
  have t: "map_sum id lb_Total (fst (ListBooks (keys_of (2 ^ 31)) 1 10 (store_of (2 ^ 31))))
       = Inr (- 2147483648)"
    by (simp only: ListBooks_Total c two_pow_31_wraps)
  have s: "sint (- 2147483648 :: int32) = - 2147483648" by simp
  have r: "snd (run (fresh_creates (2 ^ 31)) (initial sample_heap)) = store_of (2 ^ 31)"
    by (simp only: run_fresh_creates snd_conv)
  from r e c t s show ?thesis by (intro conjI)
qed

text \<open>
  Claim C3, amended. For every store, enumerated in any order, and every page and page
  size, ListBooks succeeds and changes nothing; its total is the number \<open>T\<close> of records
  converted to int32, which is \<open>T\<close> itself whenever \<open>T < 2 ^ 31\<close>. A page \<open>\<le> 0\<close> is
  treated as 1, a page size \<open>\<le> 0\<close> as 10 and a page size above 100 as 100: the
  effective parameter has that value and the answer is the answer to that request.
\<close>

theorem ListBooks_total:
  "(enumerates ks (books (srv w)) \<longrightarrow>
      (\<exists>bs total. ListBooks ks page pageSize w = (Inr \<lparr>lb_Books = bs, lb_Total = total\<rparr>, w)
         \<and> card (dom (books (srv w))) = length ks
         \<and> total = word_of_nat (card (dom (books (srv w))))
         \<and> (card (dom (books (srv w))) < 2 ^ 31 \<longrightarrow>
               sint total = int (card (dom (books (srv w)))))))
   \<and> (page \<le>s 0 \<longrightarrow>
        effective_page page = 1 \<and> ListBooks ks page pageSize w = ListBooks ks 1 pageSize w)
   \<and> (pageSize \<le>s 0 \<longrightarrow>
        effective_pageSize pageSize = 10 \<and> ListBooks ks page pageSize w = ListBooks ks page 10 w)
   \<and> (100 <s pageSize \<longrightarrow>
        effective_pageSize pageSize = 100 \<and> ListBooks ks page pageSize w = ListBooks ks page 100 w)"
proof (intro conjI impI)
  assume e: "enumerates ks (books (srv w))"
  let ?T = "card (dom (books (srv w)))"
  have "?T < 2 ^ 31 \<longrightarrow> sint (word_of_nat ?T :: int32) = int ?T"
    by (simp add: sint_of_nat_small)
  with enumerates_card [OF e]
  show "\<exists>bs total. ListBooks ks page pageSize w = (Inr \<lparr>lb_Books = bs, lb_Total = total\<rparr>, w)
         \<and> ?T = length ks \<and> total = word_of_nat ?T
         \<and> (?T < 2 ^ 31 \<longrightarrow> sint total = int ?T)"
    by (simp add: ListBooks_def Let_def)
next
  assume "page \<le>s 0"
  then show p: "effective_page page = 1"
    by (simp add: effective_page_def)
  have "effective_page 1 = 1"
    by (simp add: effective_page_def word_sle_eq)
  with p show "ListBooks ks page pageSize w = ListBooks ks 1 pageSize w"
    by (simp add: ListBooks_def)
next
  assume "pageSize \<le>s 0"
  then show p: "effective_pageSize pageSize = 10"
    by (simp add: effective_pageSize_def Let_def)
  have "effective_pageSize 10 = 10"
    by (simp add: effective_pageSize_def Let_def word_sle_eq)
  with p show "ListBooks ks page pageSize w = ListBooks ks page 10 w"
    by (simp add: ListBooks_def)
next
  assume "100 <s pageSize"
  then show p: "effective_pageSize pageSize = 100"
    by (simp add: effective_pageSize_def Let_def word_sle_eq word_sless_alt)
  have "effective_pageSize 100 = 100"
    by (simp add: effective_pageSize_def Let_def word_sle_eq)
  with p show "ListBooks ks page pageSize w = ListBooks ks page 100 w"
    by (simp add: ListBooks_def)
qed

text \<open>
  C3 on the store of three books: the total is 3 for page 0 and size 0; page 0 answers as
  page 1, size 0 as size 10, size 1000 as size 100.
\<close>

theorem ListBooks_total_witness:
  "enumerates [''book-3'', ''book-1'', ''book-2''] (books (srv priced_world))
   \<and> card (dom (books (srv priced_world))) = 3
   \<and> (\<exists>bs total. ListBooks [''book-3'', ''book-1'', ''book-2''] 0 0 priced_world
         = (Inr \<lparr>lb_Books = bs, lb_Total = total\<rparr>, priced_world) \<and> sint total = 3)
   \<and> ListBooks [''book-3'', ''book-1'', ''book-2''] 0 7 priced_world
       = ListBooks [''book-3'', ''book-1'', ''book-2''] 1 7 priced_world
   \<and> ListBooks [''book-3'', ''book-1'', ''book-2''] 1 0 priced_world
       = ListBooks [''book-3'', ''book-1'', ''book-2''] 1 10 priced_world
   \<and> ListBooks [''book-3'', ''book-1'', ''book-2''] 1 1000 priced_world
       = ListBooks [''book-3'', ''book-1'', ''book-2''] 1 100 priced_world"
proof -
  let ?ks = "[''book-3'', ''book-1'', ''book-2'']"
  note e = priced_world_enumerates
  have c: "card (dom (books (srv priced_world))) = 3"
    by (simp add: enumerates_card [OF e])
  have z: "(0 :: int32) \<le>s 0" and big: "(100 :: int32) <s 1000"
    by (simp_all add: word_sle_eq word_sless_alt)
  from ListBooks_total [of ?ks priced_world 0 0] e c
  have t: "\<exists>bs total. ListBooks ?ks 0 0 priced_world
         = (Inr \<lparr>lb_Books = bs, lb_Total = total\<rparr>, priced_world) \<and> sint total = 3"
    by auto
  from ListBooks_total [of ?ks priced_world 0 7] z
  have p: "ListBooks ?ks 0 7 priced_world = ListBooks ?ks 1 7 priced_world" by blast
  from ListBooks_total [of ?ks priced_world 1 0] z
  have s0: "ListBooks ?ks 1 0 priced_world = ListBooks ?ks 1 10 priced_world" by blast
  from ListBooks_total [of ?ks priced_world 1 1000] big
  have s1: "ListBooks ?ks 1 1000 priced_world = ListBooks ?ks 1 100 priced_world" by blast
  from e c t p s0 s1 show ?thesis by (intro conjI)
qed

lemma wrapped_window:
  fixes s e :: int32
  assumes small: "\<And>i. i < N \<Longrightarrow> sint (word_of_nat i :: int32) = int i"
    and top: "(word_of_nat N :: int32) = s"
    and neg: "sint e \<le> 0"
    and inside: "s <s e"
  shows "collect_page s e 0 [] [0..<Suc N] = [N]"
proof -
  let ?W = "\<lambda>i. s \<le>s 0 + word_of_nat i \<and> 0 + (word_of_nat i :: int32) <s e"
  have "filter ?W [0..<N] = []"
  proof -
    have "\<not> ?W i" if "i \<in> set [0..<N]" for i
    proof -
      from that have "sint (word_of_nat i :: int32) = int i" by (simp add: small)
      with neg show ?thesis by (simp add: word_sless_alt)
    qed
    then show ?thesis by (simp only: filter_empty_conv) blast
  qed
  moreover from top inside have "?W N" by simp
  ultimately have "filter ?W [0..<Suc N] = [N]" by simp
  then have "collect_page s e 0 [] [0..<Suc N] = map (nth [0..<Suc N]) [N]"
    by (simp only: collect_page_filter length_upt diff_zero append_Nil)
  also have "\<dots> = [N]" by (simp del: upt_Suc)
  finally show ?thesis .
qed

text \<open>
  C4 as stated fails on the store that \<open>2 ^ 31 + 1\<close> Creates leave behind: for page
  33554433 and size 64
  the 32-bit window runs from \<open>- 2147483648\<close> to \<open>- 2147483584\<close> and holds no
  position of the enumeration, yet the loop's 32-bit counter has wrapped to
  \<open>- 2147483648\<close> at position \<open>2 ^ 31\<close>, and ListBooks returns that record.
\<close>

theorem giant_store_window_wraps:
  "snd (run (fresh_creates (Suc (2 ^ 31))) (initial sample_heap)) = store_of (Suc (2 ^ 31))
   \<and> enumerates (keys_of (Suc (2 ^ 31))) (books (srv (store_of (Suc (2 ^ 31)))))
   \<and> map_sum id lb_Books
        (fst (ListBooks (keys_of (Suc (2 ^ 31))) 33554433 64 (store_of (Suc (2 ^ 31)))))
       = Inr [2 ^ 31]
   \<and> sint ((effective_page 33554433 - 1) * effective_pageSize 64) = - 2147483648
   \<and> sint ((effective_page 33554433 - 1) * effective_pageSize 64 + effective_pageSize 64)
       = - 2147483584
   \<and> page_window (- 2147483648) (- 2147483584)
        (range_values (keys_of (Suc (2 ^ 31))) (books (srv (store_of (Suc (2 ^ 31)))))) = []"
proof -
  have le: "Suc (2 ^ 31) \<le> 2 ^ 64" by simp
  have e: "enumerates (keys_of (Suc (2 ^ 31))) (books (srv (store_of (Suc (2 ^ 31)))))"
    by (rule store_of_enumerates [OF le])
  have p: "effective_page 33554433 = 33554433" and ps: "effective_pageSize 64 = 64"
    by (simp_all add: effective_page_def effective_pageSize_def Let_def word_sle_eq word_sless_alt)
  have st: "sint ((effective_page 33554433 - 1) * effective_pageSize 64) = - 2147483648"
    and en: "sint ((effective_page 33554433 - 1) * effective_pageSize 64 + effective_pageSize 64)
       = - 2147483584"
    by (simp_all add: p ps)
  have start: "(effective_page 33554433 - 1) * effective_pageSize 64 = (- 2147483648 :: int32)"
    and stop: "(- 2147483648 :: int32) + effective_pageSize 64 = - 2147483584"
    by (simp_all add: p ps)
  have "collect_page (- 2147483648) (- 2147483584) 0 [] [0..<Suc (2 ^ 31)] = [2 ^ 31]"
  proof (rule wrapped_window)
    fix i :: nat assume "i < 2 ^ 31"
    then show "sint (word_of_nat i :: int32) = int i" by (rule sint_of_nat_small)
  next
    show "(word_of_nat (2 ^ 31) :: int32) = - 2147483648" by (rule two_pow_31_wraps)
  next
    show "sint (- 2147483584 :: int32) \<le> 0" by simp
  next
    show "(- 2147483648 :: int32) <s - 2147483584" by (simp add: word_sless_alt)
  qed
  then have b: "map_sum id lb_Books
        (fst (ListBooks (keys_of (Suc (2 ^ 31))) 33554433 64 (store_of (Suc (2 ^ 31)))))
       = Inr [2 ^ 31]"
    by (simp only: ListBooks_Books start stop store_of_range_values [OF le])
  have w: "page_window (- 2147483648) (- 2147483584)
        (range_values (keys_of (Suc (2 ^ 31))) (books (srv (store_of (Suc (2 ^ 31)))))) = []"
    by (rule page_window_negative) simp
  have r: "snd (run (fresh_creates (Suc (2 ^ 31))) (initial sample_heap)) = store_of (Suc (2 ^ 31))"
    by (simp only: run_fresh_creates snd_conv)
  from r e b st en w show ?thesis by (intro conjI)
qed

text \<open>
  Claim C4, amended. With \<open>start = (page - 1) * pageSize\<close> and
  \<open>end = start + pageSize\<close> computed on the effective parameters in wrapping 32-bit
  signed arithmetic, ListBooks returns, for every store of at most \<open>2 ^ 31\<close> records,
  exactly the records whose 0-based position in the enumeration lies in the interval from
  \<open>start\<close> to \<open>end\<close>; and for every store, whenever \<open>start\<close> exceeds the number of
  records, the page is empty and the total is the number of records.
\<close>

theorem ListBooks_window:
  "enumerates ks (books (srv w)) \<longrightarrow>
     (\<exists>bs total. ListBooks ks page pageSize w = (Inr \<lparr>lb_Books = bs, lb_Total = total\<rparr>, w)
        \<and> (card (dom (books (srv w))) \<le> 2 ^ 31 \<longrightarrow>
              bs = page_window
                     (sint ((effective_page page - 1) * effective_pageSize pageSize))
                     (sint ((effective_page page - 1) * effective_pageSize pageSize
                            + effective_pageSize pageSize))
                     (range_values ks (books (srv w))))
        \<and> (int (card (dom (books (srv w))))
               < sint ((effective_page page - 1) * effective_pageSize pageSize) \<longrightarrow>
              bs = [] \<and> sint total = int (card (dom (books (srv w))))))"
proof
  assume e: "enumerates ks (books (srv w))"
  let ?T = "card (dom (books (srv w)))"
  let ?start = "(effective_page page - 1) * effective_pageSize pageSize"
  let ?end = "?start + effective_pageSize pageSize"
  let ?vs = "range_values ks (books (srv w))"
  let ?bs = "collect_page ?start ?end 0 [] ?vs"
  have T: "?T = length ks" by (rule enumerates_card [OF e])
  have len: "length ?vs = length ks" by (simp add: enumerates_range_values [OF e])
  have res: "ListBooks ks page pageSize w
      = (Inr \<lparr>lb_Books = ?bs, lb_Total = word_of_nat ?T\<rparr>, w)"
    by (simp add: ListBooks_def Let_def)
  have win: "?T \<le> 2 ^ 31 \<longrightarrow> ?bs = page_window (sint ?start) (sint ?end) ?vs"
    using T len by (simp add: collect_page_window)
  have past: "int ?T < sint ?start \<longrightarrow> ?bs = [] \<and> sint (word_of_nat ?T :: int32) = int ?T"
  proof
    assume lt: "int ?T < sint ?start"
    with sint_start_bound [of ?start] have small: "?T < 2 ^ 31" by simp
    with T len have "?bs = page_window (sint ?start) (sint ?end) ?vs"
      by (simp add: collect_page_window)
    moreover from lt T len have "page_window (sint ?start) (sint ?end) ?vs = []"
      by (intro page_window_past_end) simp
    ultimately show "?bs = [] \<and> sint (word_of_nat ?T :: int32) = int ?T"
      using small by (simp add: sint_of_nat_small)
  qed
  from res win past
  show "\<exists>bs total. ListBooks ks page pageSize w = (Inr \<lparr>lb_Books = bs, lb_Total = total\<rparr>, w)
        \<and> (?T \<le> 2 ^ 31 \<longrightarrow> bs = page_window (sint ?start) (sint ?end) ?vs)
        \<and> (int ?T < sint ?start \<longrightarrow> bs = [] \<and> sint total = int ?T)"
    by blast
qed

text \<open>
  C4 on the store of three books: page 1 of size 10 holds all three, page 2 of size 2 the
  third, and page 2 of size 10, whose start 10 exceeds 3, is empty with total 3.
\<close>

theorem ListBooks_window_witness:
  "enumerates [''book-3'', ''book-1'', ''book-2''] (books (srv priced_world))
   \<and> ListBooks [''book-3'', ''book-1'', ''book-2''] 1 10 priced_world
       = (Inr \<lparr>lb_Books = [2, 0, 1], lb_Total = 3\<rparr>, priced_world)
   \<and> ListBooks [''book-3'', ''book-1'', ''book-2''] 2 2 priced_world
       = (Inr \<lparr>lb_Books = [1], lb_Total = 3\<rparr>, priced_world)
   \<and> ListBooks [''book-3'', ''book-1'', ''book-2''] 2 10 priced_world
       = (Inr \<lparr>lb_Books = [], lb_Total = 3\<rparr>, priced_world)"
proof -
  let ?ks = "[''book-3'', ''book-1'', ''book-2'']"
  note e = priced_world_enumerates
  have c: "card (dom (books (srv priced_world))) = 3"
    by (simp add: enumerates_card [OF e])
  have eff: "effective_page 1 = 1" "effective_page 2 = 2"
    "effective_pageSize 10 = 10" "effective_pageSize 2 = 2"
    by (simp_all add: effective_page_def effective_pageSize_def Let_def word_sle_eq word_sless_alt)
  have total: "lb_Total r = 3"
    if "ListBooks ?ks page pageSize priced_world = (Inr r, priced_world)" for r page pageSize
    using that c by (auto simp add: ListBooks_def Let_def)
  from ListBooks_window [of ?ks priced_world 1 10] e c
  obtain bs1 t1 where r1: "ListBooks ?ks 1 10 priced_world
        = (Inr \<lparr>lb_Books = bs1, lb_Total = t1\<rparr>, priced_world)"
    and b1: "bs1 = page_window (sint ((effective_page 1 - 1) * effective_pageSize 10 :: int32))
        (sint ((effective_page 1 - 1) * effective_pageSize 10 + effective_pageSize 10 :: int32))
        (range_values ?ks (books (srv priced_world)))"
    by auto
  from b1 have "bs1 = [2, 0, 1]"
    by (simp add: eff priced_world_range_values page_window_def upt_rec)
  with r1 total [OF r1] have a: "ListBooks ?ks 1 10 priced_world
       = (Inr \<lparr>lb_Books = [2, 0, 1], lb_Total = 3\<rparr>, priced_world)"
    by simp
  from ListBooks_window [of ?ks priced_world 2 2] e c
  obtain bs2 t2 where r2: "ListBooks ?ks 2 2 priced_world
        = (Inr \<lparr>lb_Books = bs2, lb_Total = t2\<rparr>, priced_world)"
    and b2: "bs2 = page_window (sint ((effective_page 2 - 1) * effective_pageSize 2 :: int32))
        (sint ((effective_page 2 - 1) * effective_pageSize 2 + effective_pageSize 2 :: int32))
        (range_values ?ks (books (srv priced_world)))"
    by auto
  from b2 have "bs2 = [1]"
    by (simp add: eff priced_world_range_values page_window_def upt_rec)
  with r2 total [OF r2] have b: "ListBooks ?ks 2 2 priced_world
       = (Inr \<lparr>lb_Books = [1], lb_Total = 3\<rparr>, priced_world)"
    by simp
  have past: "int (card (dom (books (srv priced_world))))
      < sint ((effective_page 2 - 1) * effective_pageSize 10 :: int32)"
    by (simp add: eff c)
  from ListBooks_window [of ?ks priced_world 2 10] e past
  obtain bs3 t3 where r3: "ListBooks ?ks 2 10 priced_world
        = (Inr \<lparr>lb_Books = bs3, lb_Total = t3\<rparr>, priced_world)"
    and b3: "bs3 = []"
    by auto
  with total [OF r3] have d: "ListBooks ?ks 2 10 priced_world
       = (Inr \<lparr>lb_Books = [], lb_Total = 3\<rparr>, priced_world)"
    by simp
  from e a b d show ?thesis by (intro conjI)
qed

end
